theory Spec2Isabelle
  imports Main "HOL-Library.Word"
begin

unbundle bit_operations_syntax

section \<open>Calendar time of the C library\<close>

text \<open>
  \<^verbatim>\<open>GetNextShutdownTime\<close> works on a \<^verbatim>\<open>time_t\<close> (seconds since the epoch,
  1970-01-01 00:00:00) and on the broken-down time \<^verbatim>\<open>struct tm\<close>, through
  \<^verbatim>\<open>Acore::Time::TimeBreakdown\<close> (a wrapper of \<^verbatim>\<open>localtime_r\<close>) and
  \<^verbatim>\<open>mktime\<close>. Both belong to the C library, not to the module; they are modelled
  here for a process whose local time zone is UTC (no offset, no daylight saving), on the
  Gregorian calendar, for instants at or after the epoch: a \<^verbatim>\<open>time_t\<close> is a
  \<open>nat\<close>. (\<^verbatim>\<open>TimeBreakdown\<close> takes a timestamp of 0 for the current time; the
  module passes it the current time, so the two agree.) The fields of \<^verbatim>\<open>struct tm\<close>
  that the module reads or writes are kept with their C meaning: \<open>tm_year\<close> counts years
  since 1900, \<open>tm_mon\<close> months since January (0..11), \<open>tm_mday\<close> the day of the month
  (1..31), \<open>tm_wday\<close> days since Sunday (0..6). \<open>tm_yday\<close> and \<open>tm_isdst\<close>, which
  the module never touches and UTC never sets, are left out.
\<close>

type_synonym time_t = nat

record tm =
  tm_sec :: nat
  tm_min :: nat
  tm_hour :: nat
  tm_mday :: nat
  tm_mon :: nat
  tm_year :: nat
  tm_wday :: nat

definition MINUTE :: nat where "MINUTE = 60"
definition HOUR :: nat where "HOUR = MINUTE * 60"
definition DAY :: nat where "DAY = HOUR * 24"

definition is_leap :: "nat \<Rightarrow> bool" where
  "is_leap y = ((1900 + y) mod 4 = 0 \<and> ((1900 + y) mod 400 = 0 \<or> (1900 + y) mod 100 \<noteq> 0))"

definition days_in_year :: "nat \<Rightarrow> nat" where
  "days_in_year y = (if is_leap y then 366 else 365)"

definition days_in_month :: "nat \<Rightarrow> nat \<Rightarrow> nat" where
  "days_in_month y m =
     (if m = 1 then (if is_leap y then 29 else 28)
      else if m = 3 \<or> m = 5 \<or> m = 8 \<or> m = 10 then 30 else 31)"

text \<open>Days from the epoch to the first day of year \<open>1900 + y\<close> (years before 1970 do
  not occur), and from the first day of a year to the first day of its month \<open>m\<close>.\<close>

fun days_before_year :: "nat \<Rightarrow> nat" where
  "days_before_year y = (if y \<le> 70 then 0 else days_before_year (y - 1) + days_in_year (y - 1))"

declare days_before_year.simps [simp del]

primrec days_before_month :: "nat \<Rightarrow> nat \<Rightarrow> nat" where
  "days_before_month y 0 = 0"
| "days_before_month y (Suc m) = days_before_month y m + days_in_month y m"

text \<open>The year and the month of a day number, by the loops a C library runs: take whole
  years, then whole months, off the number of days.\<close>

function year_of :: "nat \<Rightarrow> nat \<Rightarrow> nat \<times> nat" where
  "year_of y d = (if d < days_in_year y then (y, d) else year_of (Suc y) (d - days_in_year y))"
  by pat_completeness auto
termination
  by (relation "measure (\<lambda>(y, d). d)") (auto simp: days_in_year_def)

declare year_of.simps [simp del]

function month_of :: "nat \<Rightarrow> nat \<Rightarrow> nat \<Rightarrow> nat \<times> nat" where
  "month_of y m d =
     (if m < 11 \<and> days_in_month y m \<le> d then month_of y (Suc m) (d - days_in_month y m)
      else (m, d))"
  by pat_completeness auto
termination
  by (relation "measure (\<lambda>(y, m, d). 11 - m)") auto

declare month_of.simps [simp del]

text \<open>\<^verbatim>\<open>localtime_r\<close>: the broken-down time of an instant.\<close>

definition TimeBreakdown :: "time_t \<Rightarrow> tm" where
  "TimeBreakdown t =
     (let days = t div 86400;
          (y, yday) = year_of 70 days;
          (m, d) = month_of y 0 yday
      in \<lparr>tm_sec = t mod 60, tm_min = (t div 60) mod 60, tm_hour = (t div 3600) mod 24,
          tm_mday = d + 1, tm_mon = m, tm_year = y, tm_wday = (days + 4) mod 7\<rparr>)"

text \<open>\<^verbatim>\<open>mktime\<close>: the instant of a broken-down time whose fields may be out of their
  ranges (the module adds days to \<open>tm_mday\<close>), which it also writes back normalised,
  \<open>tm_wday\<close> included. It ignores the \<open>tm_wday\<close> it is given. The result is the pair
  of the returned \<^verbatim>\<open>time_t\<close> and the struct as \<^verbatim>\<open>mktime\<close> leaves it. \<open>tm_days\<close>
  is the day number of the date fields: days beyond the end of the month, and months beyond
  December, count on into the next.\<close>

definition tm_days :: "tm \<Rightarrow> nat" where
  "tm_days t =
     (let y = tm_year t + tm_mon t div 12; m = tm_mon t mod 12
      in days_before_year y + days_before_month y m + tm_mday t - 1)"

definition mktime :: "tm \<Rightarrow> time_t \<times> tm" where
  "mktime t =
     (let secs = tm_days t * 86400 + tm_hour t * 3600 + tm_min t * 60 + tm_sec t
      in (secs, TimeBreakdown secs))"

section \<open>The next shutdown instant\<close>

text \<open>The loop of \<^verbatim>\<open>GetNextShutdownTime\<close> over \<open>weekdayIndex\<close>, from the index it
  is at, on the \<open>timeLocal\<close> it has reached: a match adds \<open>weekdayIndex\<close> to
  \<open>tm_mday\<close> and calls \<^verbatim>\<open>mktime\<close>, which normalises \<open>timeLocal\<close> in place; the
  loop goes on with that struct when the instant is not more than 10 seconds ahead. The mask
  test is C's \<^verbatim>\<open>weekdayMask & (1 << n)\<close> on promoted integers.\<close>

function mask_loop :: "time_t \<Rightarrow> 8 word \<Rightarrow> tm \<Rightarrow> nat \<Rightarrow> time_t" where
  "mask_loop timestamp weekdayMask timeLocal weekdayIndex =
     (if weekdayIndex < 7 then
        (if uint weekdayMask AND push_bit ((tm_wday timeLocal + weekdayIndex) mod 7) 1 \<noteq> 0 then
           (let (ShutdownMaskTime, timeLocal') =
                  mktime (timeLocal\<lparr>tm_mday := tm_mday timeLocal + weekdayIndex\<rparr>)
            in if int ShutdownMaskTime - 10 > int timestamp then ShutdownMaskTime
               else mask_loop timestamp weekdayMask timeLocal' (weekdayIndex + 1))
         else mask_loop timestamp weekdayMask timeLocal (weekdayIndex + 1))
      else fst (mktime (timeLocal\<lparr>tm_mday := tm_mday timeLocal + 7\<rparr>)))"
  by pat_completeness auto
termination
  by (relation "measure (\<lambda>(t, w, l, i). 7 - i)") auto

declare mask_loop.simps [simp del]

text \<open>\<open>DAY * restartDays\<close> is a product of an \<^verbatim>\<open>int\<close> constant and a
  \<^verbatim>\<open>uint32\<close>: C computes it in 32 bits, unsigned.\<close>

definition GetNextShutdownTime ::
  "time_t \<Rightarrow> 8 word \<Rightarrow> 32 word \<Rightarrow> 8 word \<Rightarrow> 8 word \<Rightarrow> 8 word \<Rightarrow> time_t" where
  "GetNextShutdownTime timestamp weekdayMask restartDays restartHour restartMinute restartSecond =
     (let timeLocal = (TimeBreakdown timestamp)
            \<lparr>tm_hour := unat restartHour, tm_min := unat restartMinute, tm_sec := unat restartSecond\<rparr>
      in if weekdayMask \<noteq> 0 then mask_loop timestamp weekdayMask timeLocal 0
         else (let ShutdownDaysTime = fst (mktime timeLocal)
               in if restartDays > 1 \<or> int ShutdownDaysTime - 10 \<le> int timestamp
                  then ShutdownDaysTime + unat (word_of_nat DAY * restartDays)
                  else ShutdownDaysTime))"

text \<open>The candidate instant the function builds: the calendar date of \<open>now\<close> with the
  time of day replaced by the target, \<open>k\<close> days later (\<^verbatim>\<open>mktime\<close> normalises the
  day of the month).\<close>

definition candidate :: "time_t \<Rightarrow> 8 word \<Rightarrow> 8 word \<Rightarrow> 8 word \<Rightarrow> nat \<Rightarrow> time_t" where
  "candidate now restartHour restartMinute restartSecond k =
     (let timeLocal = (TimeBreakdown now)
            \<lparr>tm_hour := unat restartHour, tm_min := unat restartMinute, tm_sec := unat restartSecond\<rparr>
      in fst (mktime (timeLocal\<lparr>tm_mday := tm_mday timeLocal + k\<rparr>)))"

text \<open>The seconds from midnight to a time of day, and the broken-down time of day number
  \<open>D\<close> at a given time of day (both used in proofs).\<close>

definition day_seconds :: "nat \<Rightarrow> nat \<Rightarrow> nat \<Rightarrow> nat" where
  "day_seconds h m s = h * 3600 + m * 60 + s"

definition tm_at :: "nat \<Rightarrow> nat \<Rightarrow> nat \<Rightarrow> nat \<Rightarrow> tm" where
  "tm_at D h m s = (TimeBreakdown (D * 86400))\<lparr>tm_hour := h, tm_min := m, tm_sec := s\<rparr>"

section \<open>Configuration values\<close>

text \<open>\<^verbatim>\<open>sConfigMgr->GetOption<T>\<close> returns a typed value; the options the module reads
  are the fields of \<open>config\<close>. \<^verbatim>\<open>Acore::Tokenize(str, sep, keepEmpty)\<close> cuts a string
  at every separator and drops the empty pieces unless \<open>keepEmpty\<close>;
  \<^verbatim>\<open>Acore::StringTo<T>\<close> (\<^verbatim>\<open>std::from_chars\<close>, base 10) gives a value when the
  whole string is a run of decimal digits whose value fits the type, and the empty optional
  otherwise. Both belong to the core the module is built on.\<close>

record config =
  cfg_Enabled :: bool
  cfg_WeekdayMask :: "8 word"
  cfg_EveryDays :: "32 word"
  cfg_Time :: string
  cfg_PreAnnounce_Seconds :: "32 word"
  cfg_StartEvents :: string

fun Tokenize_from :: "char \<Rightarrow> string \<Rightarrow> string \<Rightarrow> string list" where
  "Tokenize_from sep tok [] = [tok]"
| "Tokenize_from sep tok (c # cs) =
     (if c = sep then tok # Tokenize_from sep [] cs else Tokenize_from sep (tok @ [c]) cs)"

definition Tokenize :: "string \<Rightarrow> char \<Rightarrow> bool \<Rightarrow> string list" where
  "Tokenize str sep keepEmpty =
     (if keepEmpty then Tokenize_from sep [] str
      else filter (\<lambda>tok. tok \<noteq> []) (Tokenize_from sep [] str))"

definition is_digit :: "char \<Rightarrow> bool" where
  "is_digit c = (48 \<le> (of_char c :: nat) \<and> (of_char c :: nat) \<le> 57)"

fun digits_value :: "nat \<Rightarrow> string \<Rightarrow> nat" where
  "digits_value acc [] = acc"
| "digits_value acc (c # cs) = digits_value (acc * 10 + (of_char c - 48)) cs"

definition StringTo_nat :: "nat \<Rightarrow> string \<Rightarrow> nat option" where
  "StringTo_nat bound str =
     (if str \<noteq> [] \<and> list_all is_digit str \<and> digits_value 0 str < bound
      then Some (digits_value 0 str) else None)"

definition StringTo_uint8 :: "string \<Rightarrow> 8 word option" where
  "StringTo_uint8 str = map_option word_of_nat (StringTo_nat (2 ^ 8) str)"

definition StringTo_uint32 :: "string \<Rightarrow> 32 word option" where
  "StringTo_uint32 str = map_option word_of_nat (StringTo_nat (2 ^ 32) str)"

section \<open>The module, its scheduler and the world server\<close>

text \<open>
  The state the module acts on: its own flag \<open>_isEnableModule\<close>; the file's
  \<^verbatim>\<open>TaskScheduler scheduler\<close>, as its clock (milliseconds) and its queue of pending
  tasks in the order of their end times, each with the \<open>preAnnounceSeconds\<close> its closure
  captured; and what the module's calls leave in the core: the shutdown timer that
  \<^verbatim>\<open>sWorld->ShutdownServ\<close> starts and \<^verbatim>\<open>sWorld->ShutdownCancel\<close> clears, the
  durations announced through \<^verbatim>\<open>SendServerMessage\<close>, the game events started, and the
  size of the event map that \<^verbatim>\<open>events[eventId]\<close> indexes without a check.

  An operation of the C++ code that has undefined behaviour is an \<open>error\<close>: reading an
  empty \<^verbatim>\<open>std::optional\<close> through \<^verbatim>\<open>operator*\<close>, and indexing a vector out of its
  range.
\<close>

datatype error = BadOptionalAccess | IndexOutOfRange

record module_state =
  isEnableModule :: bool
  sched_now :: nat
  sched_tasks :: "(nat \<times> 32 word) list"
  ShutdownTimer :: "32 word option"
  ServerMessages :: "32 word list"
  ActiveEvents :: "32 word list"
  EventMapSize :: nat

text \<open>Modelled from the spec: the class \<^verbatim>\<open>TaskScheduler\<close> (\<^verbatim>\<open>CancelAll\<close>,
  \<^verbatim>\<open>Schedule\<close>, \<^verbatim>\<open>Update\<close>) is not among the module's sources. \<open>CancelAll\<close>
  removes every pending task without firing it; \<open>Schedule\<close> enqueues a one-shot task that
  ends the given number of seconds after the scheduler's clock; \<open>Update\<close> advances the
  clock and fires, in the order of their end times, the tasks whose end has been reached,
  each removed from the queue before its action runs.\<close>

definition CancelAll :: "module_state \<Rightarrow> module_state" where
  "CancelAll st = st\<lparr>sched_tasks := []\<rparr>"

fun InsertTask :: "nat \<times> 32 word \<Rightarrow> (nat \<times> 32 word) list \<Rightarrow> (nat \<times> 32 word) list" where
  "InsertTask t [] = [t]"
| "InsertTask t (u # us) = (if fst t < fst u then t # u # us else u # InsertTask t us)"

definition Schedule :: "nat \<Rightarrow> 32 word \<Rightarrow> module_state \<Rightarrow> module_state" where
  "Schedule seconds preAnnounceSeconds st =
     st\<lparr>sched_tasks := InsertTask (sched_now st + 1000 * seconds, preAnnounceSeconds) (sched_tasks st)\<rparr>"

definition ShutdownCancel :: "module_state \<Rightarrow> module_state" where
  "ShutdownCancel st = st\<lparr>ShutdownTimer := None\<rparr>"

definition ShutdownServ :: "32 word \<Rightarrow> module_state \<Rightarrow> module_state" where
  "ShutdownServ time st = st\<lparr>ShutdownTimer := Some time\<rparr>"

definition SendServerMessage :: "32 word \<Rightarrow> module_state \<Rightarrow> module_state" where
  "SendServerMessage seconds st = st\<lparr>ServerMessages := ServerMessages st @ [seconds]\<rparr>"

definition StartEvent :: "32 word \<Rightarrow> module_state \<Rightarrow> module_state" where
  "StartEvent eventId st = st\<lparr>ActiveEvents := ActiveEvents st @ [eventId]\<rparr>"

text \<open>The task that \<^verbatim>\<open>Init\<close> schedules (the lambda of lines 169 to 176): it announces
  the captured \<open>preAnnounceSeconds\<close> and asks the world server to shut down after as
  many seconds.\<close>

definition PreAnnounceTask :: "32 word \<Rightarrow> module_state \<Rightarrow> module_state" where
  "PreAnnounceTask preAnnounceSeconds st =
     ShutdownServ preAnnounceSeconds (SendServerMessage preAnnounceSeconds st)"

function Dispatch :: "module_state \<Rightarrow> module_state" where
  "Dispatch st =
     (case sched_tasks st of
        [] \<Rightarrow> st
      | (end_time, preAnnounceSeconds) # rest \<Rightarrow>
          if sched_now st < end_time then st
          else Dispatch (PreAnnounceTask preAnnounceSeconds (st\<lparr>sched_tasks := rest\<rparr>)))"
  by pat_completeness auto
termination
  by (relation "measure (\<lambda>st. length (sched_tasks st))")
     (auto simp: PreAnnounceTask_def ShutdownServ_def SendServerMessage_def)

declare Dispatch.simps [simp del]

definition Update :: "32 word \<Rightarrow> module_state \<Rightarrow> module_state" where
  "Update diff st = Dispatch (st\<lparr>sched_now := sched_now st + unat diff\<rparr>)"

text \<open>\<^verbatim>\<open>ServerAutoShutdown::OnUpdate\<close>.\<close>

definition OnUpdate :: "32 word \<Rightarrow> module_state \<Rightarrow> module_state" where
  "OnUpdate diff st = (if \<not> isEnableModule st then st else Update diff st)"

text \<open>\<^verbatim>\<open>ServerAutoShutdown::StartPersistentGameEvents\<close>: the loop over the tokens of
  the event list. The token is converted and the optional read with no check; the event map
  is indexed with no check.\<close>

fun StartEvents_loop :: "string list \<Rightarrow> module_state \<Rightarrow> error + module_state" where
  "StartEvents_loop [] st = Inr st"
| "StartEvents_loop (token # tokens) st =
     (if token = [] then StartEvents_loop tokens st
      else case StringTo_uint32 token of
             None \<Rightarrow> Inl BadOptionalAccess
           | Some eventId \<Rightarrow>
               if unat eventId < EventMapSize st
               then StartEvents_loop tokens (StartEvent eventId st)
               else Inl IndexOutOfRange)"

definition StartPersistentGameEvents :: "config \<Rightarrow> module_state \<Rightarrow> error + module_state" where
  "StartPersistentGameEvents cfg st =
     StartEvents_loop (Tokenize (cfg_StartEvents cfg) CHR '' '' False) st"

text \<open>The lambda \<open>CheckTime\<close> of \<^verbatim>\<open>Init\<close>.\<close>

fun CheckTime :: "string list \<Rightarrow> nat list \<Rightarrow> bool" where
  "CheckTime tokens [] = True"
| "CheckTime tokens (itr # index) =
     (if StringTo_uint8 (tokens ! itr) = None then False else CheckTime tokens index)"

text \<open>The target time of day that \<^verbatim>\<open>Init\<close> reads from the option \<open>Time\<close> (lines 103
  to 105), and the instant it computes from it (line 135).\<close>

definition cfg_restartHour :: "config \<Rightarrow> 8 word" where
  "cfg_restartHour cfg = the (StringTo_uint8 (Tokenize (cfg_Time cfg) CHR '':'' False ! 0))"

definition cfg_restartMinute :: "config \<Rightarrow> 8 word" where
  "cfg_restartMinute cfg = the (StringTo_uint8 (Tokenize (cfg_Time cfg) CHR '':'' False ! 1))"

definition cfg_restartSecond :: "config \<Rightarrow> 8 word" where
  "cfg_restartSecond cfg = the (StringTo_uint8 (Tokenize (cfg_Time cfg) CHR '':'' False ! 2))"

definition nextShutdown :: "config \<Rightarrow> time_t \<Rightarrow> time_t" where
  "nextShutdown cfg nowTime =
     GetNextShutdownTime nowTime (cfg_WeekdayMask cfg) (cfg_EveryDays cfg)
       (cfg_restartHour cfg) (cfg_restartMinute cfg) (cfg_restartSecond cfg)"

text \<open>\<^verbatim>\<open>ServerAutoShutdown::Init\<close>, called with the value \<open>nowTime\<close> that
  \<^verbatim>\<open>time(nullptr)\<close> returns. Every early return of the source is a branch; the log
  lines are left out. The comparisons of the \<^verbatim>\<open>uint8\<close> time fields with 0 never hold
  and are left out. \<open>nextResetTime\<close> is a \<^verbatim>\<open>uint64\<close>, the differences are
  \<^verbatim>\<open>uint32\<close>, and \<open>nowTime32\<close> is \<^verbatim>\<open>static_cast<uint32>(nowTime)\<close>. The
  assignment of \<open>timeToPreAnnounce\<close> in the clamping branch only feeds a log line.\<close>

definition Init :: "config \<Rightarrow> time_t \<Rightarrow> module_state \<Rightarrow> error + module_state" where
  "Init cfg nowTime st0 =
     (let st = st0\<lparr>isEnableModule := cfg_Enabled cfg\<rparr> in
      if \<not> isEnableModule st then Inr st
      else
        let weekdayMask = cfg_WeekdayMask cfg;
            restartDays = cfg_EveryDays cfg;
            configTime = cfg_Time cfg;
            preAnnounceSeconds = cfg_PreAnnounce_Seconds cfg;
            tokens = Tokenize configTime CHR '':'' False
        in
        if length tokens \<noteq> 3 then Inr (st\<lparr>isEnableModule := False\<rparr>)
        else if \<not> CheckTime tokens [0, 1, 2] then Inr (st\<lparr>isEnableModule := False\<rparr>)
        else
          let restartHour = the (StringTo_uint8 (tokens ! 0));
              restartMinute = the (StringTo_uint8 (tokens ! 1));
              restartSecond = the (StringTo_uint8 (tokens ! 2))
          in
          if weekdayMask > 127 then Inr (st\<lparr>isEnableModule := False\<rparr>)
          else if restartDays < 1 \<or> restartDays > 365 then Inr (st\<lparr>isEnableModule := False\<rparr>)
          else if restartHour > 23 \<or> restartMinute > 59 \<or> restartSecond > 59
            then Inr (st\<lparr>isEnableModule := False\<rparr>)
          else
            let preAnnounceSeconds =
                  (if preAnnounceSeconds > word_of_nat DAY then word_of_nat HOUR
                   else preAnnounceSeconds);
                nowTime32 = (word_of_nat nowTime :: 32 word);
                nextResetTime = (word_of_nat
                  (GetNextShutdownTime nowTime weekdayMask restartDays
                     restartHour restartMinute restartSecond) :: 64 word);
                diffToShutdown = (ucast (nextResetTime - ucast nowTime32) :: 32 word);
                st1 = ShutdownCancel (CancelAll st);
                timeToPreAnnounce = (ucast nextResetTime :: 32 word) - preAnnounceSeconds;
                diffToPreAnnounce = timeToPreAnnounce - nowTime32;
                (diffToPreAnnounce, preAnnounceSeconds) =
                  (if diffToShutdown < preAnnounceSeconds then (1, diffToShutdown)
                   else (diffToPreAnnounce, preAnnounceSeconds))
            in
            case StartPersistentGameEvents cfg st1 of
              Inl e \<Rightarrow> Inl e
            | Inr st2 \<Rightarrow> Inr (Schedule (unat diffToPreAnnounce) preAnnounceSeconds st2))"

text \<open>The configurations that pass every check of \<^verbatim>\<open>Init\<close> (lines 71 to 126).\<close>

definition valid_config :: "config \<Rightarrow> bool" where
  "valid_config cfg =
     (cfg_Enabled cfg \<and> length (Tokenize (cfg_Time cfg) CHR '':'' False) = 3 \<and>
      CheckTime (Tokenize (cfg_Time cfg) CHR '':'' False) [0, 1, 2] \<and>
      cfg_WeekdayMask cfg \<le> 127 \<and> 1 \<le> cfg_EveryDays cfg \<and> cfg_EveryDays cfg \<le> 365 \<and>
      cfg_restartHour cfg \<le> 23 \<and> cfg_restartMinute cfg \<le> 59 \<and> cfg_restartSecond cfg \<le> 59)"

text \<open>The scheduler's clock counts milliseconds from an origin of its own. A task
  scheduled by an \<^verbatim>\<open>Init\<close> that ran at the instant \<open>nowTime\<close> on the state \<open>st\<close> is due
  at the instant \<open>t\<close> when its end is \<open>t - nowTime\<close> seconds after the clock of \<open>st\<close>.\<close>

definition fires_at :: "time_t \<Rightarrow> module_state \<Rightarrow> time_t \<Rightarrow> nat \<times> 32 word \<Rightarrow> bool" where
  "fires_at nowTime st t task =
     (nowTime \<le> t \<and> fst task = sched_now st + 1000 * (t - nowTime))"

text \<open>The lead time \<^verbatim>\<open>Init\<close> works with after its check of line 128.\<close>

definition leadSeconds :: "config \<Rightarrow> 32 word" where
  "leadSeconds cfg =
     (if cfg_PreAnnounce_Seconds cfg > word_of_nat DAY then word_of_nat HOUR
      else cfg_PreAnnounce_Seconds cfg)"

section \<open>The next occurrence as the specification words it\<close>

text \<open>Weekday mode in the words of the specification: among the offsets 0 to 6 from
  today, the earliest one whose weekday is in the mask and whose candidate is more than 10
  seconds ahead; the candidate of offset 7 when there is none.\<close>

definition qualifying_offsets :: "time_t \<Rightarrow> 8 word \<Rightarrow> 8 word \<Rightarrow> 8 word \<Rightarrow> 8 word \<Rightarrow> nat list" where
  "qualifying_offsets now weekdayMask h m s =
     filter (\<lambda>offset. bit weekdayMask ((tm_wday (TimeBreakdown now) + offset) mod 7) \<and>
                      int (candidate now h m s offset) - 10 > int now) [0..<7]"

definition NextOccurrence_spec :: "time_t \<Rightarrow> 8 word \<Rightarrow> 8 word \<Rightarrow> 8 word \<Rightarrow> 8 word \<Rightarrow> time_t" where
  "NextOccurrence_spec now weekdayMask h m s =
     (case qualifying_offsets now weekdayMask h m s of
        [] \<Rightarrow> candidate now h m s 7
      | offset # _ \<Rightarrow> candidate now h m s offset)"

section \<open>Sample configurations and states\<close>

text \<open>The module enabled, every other option at the default of its \<^verbatim>\<open>GetOption\<close> call:
  a shutdown every day at 04:00:00, announced an hour ahead.\<close>

definition default_config :: config where
  "default_config =
     \<lparr>cfg_Enabled = True, cfg_WeekdayMask = 0, cfg_EveryDays = 1, cfg_Time = ''04:00:00'',
      cfg_PreAnnounce_Seconds = 3600, cfg_StartEvents = []\<rparr>"

text \<open>A module that has not run yet, and one that a reload finds with an announcement
  pending and a shutdown of the world server counting down.\<close>

definition initial_state :: module_state where
  "initial_state =
     \<lparr>isEnableModule = False, sched_now = 0, sched_tasks = [], ShutdownTimer = None,
      ServerMessages = [], ActiveEvents = [], EventMapSize = 0\<rparr>"

definition reloading_state :: module_state where
  "reloading_state =
     \<lparr>isEnableModule = True, sched_now = 0, sched_tasks = [(82805000, 3600)],
      ShutdownTimer = Some 600, ServerMessages = [], ActiveEvents = [], EventMapSize = 0\<rparr>"

section \<open>Calendar arithmetic\<close>

text \<open>The loops of \<open>TimeBreakdown\<close> invert the day count of \<open>mktime\<close>: the broken-down
  time of an instant, with a number of days added to its day of the month, is that many days
  later.\<close>

lemma days_in_year_pos: "0 < days_in_year y"
  by (simp add: days_in_year_def)

lemma days_before_year_Suc: "70 \<le> y \<Longrightarrow> days_before_year (Suc y) = days_before_year y + days_in_year y"
  by (subst days_before_year.simps) simp

lemma year_of_correct:
  "70 \<le> y \<Longrightarrow> year_of y d = (y', r) \<Longrightarrow>
     70 \<le> y' \<and> r < days_in_year y' \<and> days_before_year y' + r = days_before_year y + d"
proof (induction y d rule: year_of.induct)
  case (1 y d)
  show ?case
  proof (cases "d < days_in_year y")
    case True
    with "1.prems" show ?thesis by (simp add: year_of.simps)
  next
    case False
    with "1.prems" have step: "year_of (Suc y) (d - days_in_year y) = (y', r)"
      by (simp add: year_of.simps)
    from "1.IH" [OF False _ step] "1.prems"(1)
    have "70 \<le> y' \<and> r < days_in_year y' \<and>
          days_before_year y' + r = days_before_year (Suc y) + (d - days_in_year y)"
      by simp
    with False "1.prems"(1) show ?thesis
      by (simp add: days_before_year_Suc)
  qed
qed

lemma month_of_correct:
  "m \<le> 11 \<Longrightarrow> month_of y m d = (m', r) \<Longrightarrow>
     m' \<le> 11 \<and> days_before_month y m' + r = days_before_month y m + d"
proof (induction y m d rule: month_of.induct)
  case (1 y m d)
  show ?case
  proof (cases "m < 11 \<and> days_in_month y m \<le> d")
    case True
    with "1.prems" have step: "month_of y (Suc m) (d - days_in_month y m) = (m', r)"
      by (simp add: month_of.simps)
    from True have "Suc m \<le> 11" by simp
    from "1.IH" [OF True this step] True show ?thesis by simp
  next
    case False
    with "1.prems" show ?thesis by (simp add: month_of.simps)
  qed
qed

lemma TimeBreakdown_update:
  "(TimeBreakdown t)\<lparr>tm_hour := h, tm_min := m, tm_sec := s\<rparr> = tm_at (t div 86400) h m s"
  by (simp add: tm_at_def TimeBreakdown_def Let_def split: prod.splits)

lemma TimeBreakdown_target:
  assumes "h < 24" "m < 60" "s < 60"
  shows "TimeBreakdown (D * 86400 + h * 3600 + m * 60 + s) = tm_at D h m s"
proof -
  define t where "t = D * 86400 + h * 3600 + m * 60 + s"
  define q1 where "q1 = D * 1440 + h * 60 + m"
  define q2 where "q2 = D * 24 + h"
  from assms have r: "h * 3600 + m * 60 + s < 86400" "m * 60 + s < 3600" by linarith+
  have e1: "t = q1 * 60 + s" by (simp add: t_def q1_def)
  have e2: "q1 = q2 * 60 + m" by (simp add: q1_def q2_def)
  have e3: "t = q2 * 3600 + (m * 60 + s)" by (simp add: t_def q2_def)
  have e4: "t = D * 86400 + (h * 3600 + m * 60 + s)" by (simp add: t_def)
  have a: "t mod 60 = s" unfolding e1 using assms by simp
  have "t div 60 = q1" unfolding e1 using assms by simp
  then have b: "(t div 60) mod 60 = m" unfolding e2 using assms by simp
  have "t div 3600 = q2" unfolding e3 using r by simp
  then have c: "(t div 3600) mod 24 = h" unfolding q2_def using assms by simp
  have d: "t div 86400 = D" unfolding e4 using r by simp
  from a b c d have "TimeBreakdown t = tm_at D h m s"
    by (simp add: tm_at_def TimeBreakdown_def Let_def split: prod.splits)
  then show ?thesis by (simp add: t_def)
qed

lemma tm_days_at_add: "tm_days ((tm_at D h m s)\<lparr>tm_mday := tm_mday (tm_at D h m s) + k\<rparr>) = D + k"
proof -
  obtain y yd where y: "year_of 70 D = (y, yd)" by (cases "year_of 70 D")
  obtain mo r where mo: "month_of y 0 yd = (mo, r)" by (cases "month_of y 0 yd")
  from year_of_correct [OF _ y] have a: "days_before_year y + yd = D"
    by (simp add: days_before_year.simps)
  from month_of_correct [OF _ mo] have b: "mo \<le> 11" "days_before_month y mo + r = yd"
    by simp_all
  from b(1) have "mo div 12 = 0" "mo mod 12 = mo" by simp_all
  with a b y mo show ?thesis
    by (simp add: tm_days_def tm_at_def TimeBreakdown_def Let_def)
qed

lemma tm_wday_at: "tm_wday (tm_at D h m s) = (D + 4) mod 7"
  by (simp add: tm_at_def TimeBreakdown_def Let_def split: prod.splits)

lemma tm_fields_at: "tm_hour (tm_at D h m s) = h" "tm_min (tm_at D h m s) = m" "tm_sec (tm_at D h m s) = s"
  by (simp_all add: tm_at_def)

lemma tm_wday_TimeBreakdown: "tm_wday (TimeBreakdown t) = (t div 86400 + 4) mod 7"
  by (simp add: TimeBreakdown_def Let_def split: prod.splits)

lemma mktime_at:
  "fst (mktime ((tm_at D h m s)\<lparr>tm_mday := tm_mday (tm_at D h m s) + k\<rparr>)) = (D + k) * 86400 + h * 3600 + m * 60 + s"
  using tm_days_at_add [of D h m s k] by (simp add: mktime_def Let_def tm_fields_at)

lemma mktime_at_snd:
  assumes "h < 24" "m < 60" "s < 60"
  shows "snd (mktime ((tm_at D h m s)\<lparr>tm_mday := tm_mday (tm_at D h m s) + k\<rparr>)) = tm_at (D + k) h m s"
  using tm_days_at_add [of D h m s k] TimeBreakdown_target [OF assms, of "D + k"]
  by (simp add: mktime_def Let_def tm_fields_at)

lemma mktime_at_pair:
  assumes "h < 24" "m < 60" "s < 60"
  shows "mktime ((tm_at D h m s)\<lparr>tm_mday := tm_mday (tm_at D h m s) + k\<rparr>) =
         ((D + k) * 86400 + h * 3600 + m * 60 + s, tm_at (D + k) h m s)"
  using mktime_at [of D h m s k] mktime_at_snd [OF assms, of D k]
  by (simp add: prod_eq_iff)

lemma mktime_at0: "fst (mktime (tm_at D h m s)) = D * 86400 + h * 3600 + m * 60 + s"
  using mktime_at [of D h m s 0] by simp

lemma day_seconds_less: "h < 24 \<Longrightarrow> m < 60 \<Longrightarrow> s < 60 \<Longrightarrow> day_seconds h m s < 86400"
  unfolding day_seconds_def by linarith

lemma TimeBreakdown_fields:
  assumes "h < 24" "m < 60" "s < 60"
  shows "tm_hour (TimeBreakdown (d * 86400 + day_seconds h m s)) = h"
        "tm_min (TimeBreakdown (d * 86400 + day_seconds h m s)) = m"
        "tm_sec (TimeBreakdown (d * 86400 + day_seconds h m s)) = s"
proof -
  have e: "d * 86400 + day_seconds h m s = d * 86400 + h * 3600 + m * 60 + s"
    by (simp add: day_seconds_def)
  have "TimeBreakdown (d * 86400 + day_seconds h m s) = tm_at d h m s"
    unfolding e by (rule TimeBreakdown_target [OF assms])
  then show "tm_hour (TimeBreakdown (d * 86400 + day_seconds h m s)) = h"
        "tm_min (TimeBreakdown (d * 86400 + day_seconds h m s)) = m"
        "tm_sec (TimeBreakdown (d * 86400 + day_seconds h m s)) = s"
    by (simp_all add: tm_fields_at)
qed

lemma day_bounds: "now div 86400 * 86400 \<le> (now::nat)" "now < now div 86400 * 86400 + 86400"
proof -
  show "now div 86400 * 86400 \<le> now" by simp
  have "now mod 86400 < 86400" by simp
  then show "now < now div 86400 * 86400 + 86400"
    using div_mult_mod_eq [of now 86400] by linarith
qed

lemma candidate_eq:
  "candidate now h m s k = (now div 86400 + k) * 86400 + unat h * 3600 + unat m * 60 + unat s"
  by (simp add: candidate_def Let_def TimeBreakdown_update mktime_at)

lemma TimeBreakdown_samples:
  "TimeBreakdown 1793663995 =
     \<lparr>tm_sec = 55, tm_min = 59, tm_hour = 23, tm_mday = 2, tm_mon = 10, tm_year = 126, tm_wday = 1\<rparr>"
  "TimeBreakdown 1793750400 =
     \<lparr>tm_sec = 0, tm_min = 0, tm_hour = 0, tm_mday = 4, tm_mon = 10, tm_year = 126, tm_wday = 3\<rparr>"
  "TimeBreakdown 1794182400 =
     \<lparr>tm_sec = 0, tm_min = 0, tm_hour = 0, tm_mday = 9, tm_mon = 10, tm_year = 126, tm_wday = 1\<rparr>"
  "TimeBreakdown 1794268800 =
     \<lparr>tm_sec = 0, tm_min = 0, tm_hour = 0, tm_mday = 10, tm_mon = 10, tm_year = 126, tm_wday = 2\<rparr>"
  "TimeBreakdown 1793591995 =
     \<lparr>tm_sec = 55, tm_min = 59, tm_hour = 3, tm_mday = 2, tm_mon = 10, tm_year = 126, tm_wday = 1\<rparr>"
  "TimeBreakdown 1794196800 =
     \<lparr>tm_sec = 0, tm_min = 0, tm_hour = 4, tm_mday = 9, tm_mon = 10, tm_year = 126, tm_wday = 1\<rparr>"
  by (simp_all add: TimeBreakdown_def Let_def year_of.simps month_of.simps days_in_year_def
      days_in_month_def is_leap_def)

section \<open>The weekday loop on a normalised struct\<close>

text \<open>For a target time of day in its natural range the loop only ever holds the struct
  of some day \<open>D\<close> at the target time; one step of it, from the index \<open>i\<close>:\<close>

lemma mask_test: "(uint (w :: 8 word) AND push_bit n 1 \<noteq> 0) = bit w n"
  by (auto simp add: and_exp_eq_0_iff_not_bit bit_uint_iff dest: bit_imp_le_length)

lemma mask_loop_at:
  assumes "h < 24" "m < 60" "s < 60"
  shows "mask_loop now wmask (tm_at D h m s) i =
     (if i < 7 then
        (if bit wmask ((D + 4 + i) mod 7) then
           (if now + 10 < (D + i) * 86400 + h * 3600 + m * 60 + s
            then (D + i) * 86400 + h * 3600 + m * 60 + s
            else mask_loop now wmask (tm_at (D + i) h m s) (i + 1))
         else mask_loop now wmask (tm_at D h m s) (i + 1))
      else (D + 7) * 86400 + h * 3600 + m * 60 + s)"
proof -
  have w: "(tm_wday (tm_at D h m s) + i) mod 7 = (D + 4 + i) mod 7"
    by (simp add: tm_wday_at mod_add_left_eq)
  have g: "(int ((D + i) * 86400 + h * 3600 + m * 60 + s) - 10 > int now) =
           (now + 10 < (D + i) * 86400 + h * 3600 + m * 60 + s)"
    by linarith
  show ?thesis
    apply (subst mask_loop.simps)
    apply (simp only: w mask_test mktime_at_pair [OF assms] mktime_at prod.case Let_def g fst_conv)
    done
qed

lemma mask_loop_end:
  assumes "h < 24" "m < 60" "s < 60" "\<not> i < 7"
  shows "mask_loop now wmask (tm_at D h m s) i = (D + 7) * 86400 + day_seconds h m s"
  using assms(4) by (subst mask_loop_at [OF assms(1-3)]) (simp add: day_seconds_def)

lemma mask_loop_skip:
  assumes "h < 24" "m < 60" "s < 60" "i < 7" "\<not> bit wmask ((D + 4 + i) mod 7)"
  shows "mask_loop now wmask (tm_at D h m s) i = mask_loop now wmask (tm_at D h m s) (i + 1)"
  by (subst mask_loop_at [OF assms(1-3)]) (simp only: assms(4,5) if_True if_False)

lemma mask_loop_hit:
  assumes "h < 24" "m < 60" "s < 60" "i < 7" "bit wmask ((D + 4 + i) mod 7)"
    "now + 10 < (D + i) * 86400 + day_seconds h m s"
  shows "mask_loop now wmask (tm_at D h m s) i = (D + i) * 86400 + day_seconds h m s"
proof -
  from assms(6) have g: "now + 10 < (D + i) * 86400 + h * 3600 + m * 60 + s"
    by (simp add: day_seconds_def)
  have e: "(D + i) * 86400 + h * 3600 + m * 60 + s = (D + i) * 86400 + day_seconds h m s"
    by (simp add: day_seconds_def)
  show ?thesis
    by (subst mask_loop_at [OF assms(1-3)]) (simp only: assms(4,5,6) e if_True)
qed

lemma mask_loop_miss:
  assumes "h < 24" "m < 60" "s < 60" "i < 7" "bit wmask ((D + 4 + i) mod 7)"
    "\<not> now + 10 < (D + i) * 86400 + day_seconds h m s"
  shows "mask_loop now wmask (tm_at D h m s) i = mask_loop now wmask (tm_at (D + i) h m s) (i + 1)"
proof -
  from assms(6) have g: "\<not> now + 10 < (D + i) * 86400 + h * 3600 + m * 60 + s"
    by (simp add: day_seconds_def)
  show ?thesis
    by (subst mask_loop_at [OF assms(1-3)]) (simp only: assms(4,5) g if_True if_False)
qed

lemma GetNextShutdownTime_at:
  "GetNextShutdownTime now wmask days h m s =
     (if wmask \<noteq> 0 then mask_loop now wmask (tm_at (now div 86400) (unat h) (unat m) (unat s)) 0
      else if days > 1 \<or> candidate now h m s 0 \<le> now + 10
           then candidate now h m s 0 + unat (86400 * days)
           else candidate now h m s 0)"
proof -
  have g: "(int (candidate now h m s 0) - 10 \<le> int now) = (candidate now h m s 0 \<le> now + 10)"
    by linarith
  have c: "fst (mktime (tm_at (now div 86400) (unat h) (unat m) (unat s))) = candidate now h m s 0"
    by (simp add: candidate_eq mktime_at0)
  show ?thesis
    by (simp add: GetNextShutdownTime_def Let_def TimeBreakdown_update c g DAY_def HOUR_def MINUTE_def)
qed

lemma GetNextShutdownTime_mask:
  "wmask \<noteq> 0 \<Longrightarrow> GetNextShutdownTime now wmask days h m s =
     mask_loop now wmask (tm_at (now div 86400) (unat h) (unat m) (unat s)) 0"
  by (simp add: GetNextShutdownTime_at)

lemma GetNextShutdownTime_interval:
  "GetNextShutdownTime now 0 days h m s =
     (if days > 1 \<or> candidate now h m s 0 \<le> now + 10
      then candidate now h m s 0 + unat (86400 * days)
      else candidate now h m s 0)"
  by (simp add: GetNextShutdownTime_at)

lemma unat_time_fields:
  fixes h m s :: "8 word"
  assumes "h \<le> 23" "m \<le> 59" "s \<le> 59"
  shows "unat h < 24" "unat m < 60" "unat s < 60"
  using assms by (simp_all add: word_le_nat_alt)

text \<open>Every result of the loop is some day at the target time, later than \<open>now\<close> and
  at most eight days after the midnight before \<open>now\<close>: a match that the 10-second guard
  rejects is today's or tomorrow's, and the struct stays where \<^verbatim>\<open>mktime\<close> left it.\<close>

lemma mask_loop_form:
  assumes v: "h < 24" "m < 60" "s < 60"
  shows "\<exists>d. mask_loop now wmask (tm_at D h m s) i = d * 86400 + h * 3600 + m * 60 + s"
proof (induction "7 - i" arbitrary: i D)
  case 0
  then have "mask_loop now wmask (tm_at D h m s) i = (D + 7) * 86400 + h * 3600 + m * 60 + s"
    by (subst mask_loop_at [OF v]) simp
  then show ?case by blast
next
  case (Suc n)
  then have i: "i < 7" and n: "n = 7 - (i + 1)" by simp_all
  from Suc.hyps(1) [OF n] obtain d1 where
    d1: "mask_loop now wmask (tm_at D h m s) (i + 1) = d1 * 86400 + h * 3600 + m * 60 + s" by blast
  from Suc.hyps(1) [OF n] obtain d2 where
    d2: "mask_loop now wmask (tm_at (D + i) h m s) (i + 1) = d2 * 86400 + h * 3600 + m * 60 + s" by blast
  have "mask_loop now wmask (tm_at D h m s) i = d1 * 86400 + h * 3600 + m * 60 + s \<or>
        mask_loop now wmask (tm_at D h m s) i = d2 * 86400 + h * 3600 + m * 60 + s \<or>
        mask_loop now wmask (tm_at D h m s) i = (D + i) * 86400 + h * 3600 + m * 60 + s"
    using i d1 d2 by (subst (1 2 3) mask_loop_at [OF v]) simp
  then show ?case by blast
qed

lemma mask_loop_bounds:
  assumes v: "h < 24" "m < 60" "s < 60"
  shows "i \<le> 7 \<Longrightarrow> now div 86400 \<le> D \<Longrightarrow> D \<le> now div 86400 + 1 \<Longrightarrow>
     now < mask_loop now wmask (tm_at D h m s) i \<and>
     mask_loop now wmask (tm_at D h m s) i \<le> (now div 86400 + 8) * 86400 + h * 3600 + m * 60 + s"
proof (induction "7 - i" arbitrary: i D)
  case 0
  then have i: "i = 7" by simp
  from day_bounds [of now] 0 show ?case
    by (subst (1 2) mask_loop_at [OF v]) (simp add: i)
next
  case (Suc n)
  then have i: "i < 7" by simp
  note db = day_bounds [of now]
  let ?c = "(D + i) * 86400 + h * 3600 + m * 60 + s"
  show ?case
  proof (cases "bit wmask ((D + 4 + i) mod 7)")
    case False
    have "n = 7 - (i + 1)" "i + 1 \<le> 7" using Suc.hyps(2) i by simp_all
    from Suc.hyps(1) [OF this Suc.prems(2,3)] False i show ?thesis
      by (subst (1 2) mask_loop_at [OF v]) simp
  next
    case True
    show ?thesis
    proof (cases "now + 10 < ?c")
      case g: True
      have "?c \<le> (now div 86400 + 8) * 86400 + h * 3600 + m * 60 + s"
        using Suc.prems(3) i by simp
      moreover have "now < ?c" using g by simp
      ultimately show ?thesis using True g i
        by (subst (1 2) mask_loop_at [OF v]) simp
    next
      case g: False
      have "D + i \<le> now div 86400 + 1"
      proof (rule ccontr)
        assume "\<not> D + i \<le> now div 86400 + 1"
        then have "now div 86400 + 2 \<le> D + i" by simp
        then have "(now div 86400 + 2) * 86400 \<le> (D + i) * 86400" by (rule mult_le_mono1)
        with db g show False by simp
      qed
      moreover have "now div 86400 \<le> D + i" using Suc.prems(2) by simp
      moreover have "n = 7 - (i + 1)" "i + 1 \<le> 7" using Suc.hyps(2) i by simp_all
      ultimately have "now < mask_loop now wmask (tm_at (D + i) h m s) (i + 1) \<and>
         mask_loop now wmask (tm_at (D + i) h m s) (i + 1) \<le> (now div 86400 + 8) * 86400 + h * 3600 + m * 60 + s"
        using Suc.hyps(1) by blast
      with True g i show ?thesis
        by (subst (1 2) mask_loop_at [OF v]) simp
    qed
  qed
qed

lemma GetNextShutdownTime_mask_form:
  fixes h m s :: "8 word"
  assumes v: "h \<le> 23" "m \<le> 59" "s \<le> 59" and nz: "wmask \<noteq> 0"
  shows "\<exists>d. GetNextShutdownTime now wmask days h m s = d * 86400 + day_seconds (unat h) (unat m) (unat s)"
proof -
  note u = unat_time_fields [OF v]
  from mask_loop_form [OF u, of now wmask "now div 86400" 0] show ?thesis
    by (simp add: GetNextShutdownTime_mask [OF nz] day_seconds_def add.assoc)
qed

text \<open>A mask of one weekday.\<close>

lemma bit_single: "w < 7 \<Longrightarrow> bit (push_bit w 1 :: 8 word) n \<longleftrightarrow> n = w"
  by (auto simp: bit_simps)

lemma weekday_reached:
  fixes D w :: nat
  assumes "w < 7"
  shows "\<exists>j<7. (D + 4 + j) mod 7 = w"
proof -
  define r where "r = (D + 4) mod 7"
  have r: "r < 7" by (simp add: r_def)
  have e: "(D + 4 + j) mod 7 = (r + j) mod 7" for j
    by (simp add: r_def mod_add_left_eq)
  show ?thesis
  proof (cases "r \<le> w")
    case True
    with assms have "w - r < 7" "(r + (w - r)) mod 7 = w" by simp_all
    then show ?thesis unfolding e by blast
  next
    case False
    with r assms have "w + 7 - r < 7" "r + (w + 7 - r) = w + 7" by simp_all
    moreover have "(w + 7) mod 7 = w" using assms by simp
    ultimately show ?thesis unfolding e by metis
  qed
qed

lemma weekday_no_repeat:
  fixes D i :: nat
  assumes "(D + 5 + i) mod 7 = (D + 5) mod 7" "2 \<le> i" "i < 7"
  shows False
proof -
  define r where "r = (D + 5) mod 7"
  have r: "r < 7" by (simp add: r_def)
  have "(D + 5 + i) mod 7 = (r + i) mod 7"
    by (simp add: r_def mod_add_left_eq)
  with assms(1) have e: "(r + i) mod 7 = r" by (simp add: r_def)
  show False
  proof (cases "r + i < 7")
    case True
    with e assms(2) show False by simp
  next
    case False
    then have "(r + i) mod 7 = (r + i - 7) mod 7" by (simp add: le_mod_geq)
    also have "\<dots> = r + i - 7" using r assms(3) by simp
    finally show False using e False assms(3) by simp
  qed
qed

lemma guard_fails_early:
  fixes now D0 i T :: nat
  assumes "now < D0 * 86400 + 86400" "\<not> now + 10 < (D0 + i) * 86400 + T"
  shows "i \<le> 1"
proof (rule ccontr)
  assume "\<not> i \<le> 1"
  then have "D0 + 2 \<le> D0 + i" by simp
  then have "(D0 + 2) * 86400 \<le> (D0 + i) * 86400" by (rule mult_le_mono1)
  with assms show False by simp
qed

lemma single_bit_bound:
  fixes now h m s w :: nat
  defines "D0 \<equiv> now div 86400"
  defines "T \<equiv> day_seconds h m s"
  assumes v: "h < 24" "m < 60" "s < 60" and w: "w < 7"
  shows "i \<le> 7 \<Longrightarrow>
     (D = D0 \<and> (\<forall>j<i. (D0 + 4 + j) mod 7 = w \<longrightarrow> (D0 + j) * 86400 + T \<le> now + 10)) \<or>
     (D = D0 + 1 \<and> 2 \<le> i \<and> (D0 + 5) mod 7 = w \<and> (D0 + 1) * 86400 + T \<le> now + 10) \<Longrightarrow>
     mask_loop now (push_bit w 1) (tm_at D h m s) i \<le> now + 7 * 86400 + 10"
proof (induction "7 - i" arbitrary: i D)
  case 0
  then have i: "\<not> i < 7" "i = 7" by simp_all
  have r: "mask_loop now (push_bit w 1) (tm_at D h m s) i = (D + 7) * 86400 + T"
    unfolding T_def by (rule mask_loop_end [OF v i(1)])
  from "0.prems"(2) show ?case
  proof
    assume a: "D = D0 \<and> (\<forall>j<i. (D0 + 4 + j) mod 7 = w \<longrightarrow> (D0 + j) * 86400 + T \<le> now + 10)"
    from weekday_reached [OF w, of D0] obtain j where j: "j < 7" "(D0 + 4 + j) mod 7 = w" by blast
    with a i have "(D0 + j) * 86400 + T \<le> now + 10" by simp
    moreover have "(D0 + 7) * 86400 + T \<le> (D0 + j) * 86400 + T + 7 * 86400" by simp
    ultimately show ?thesis using a r by simp
  next
    assume a: "D = D0 + 1 \<and> 2 \<le> i \<and> (D0 + 5) mod 7 = w \<and> (D0 + 1) * 86400 + T \<le> now + 10"
    then show ?thesis using r by simp
  qed
next
  case (Suc n)
  then have i: "i < 7" and n: "n = 7 - (i + 1)" and i1: "i + 1 \<le> 7" by simp_all
  note db = day_bounds [of now, folded D0_def]
  have T: "T < 86400" unfolding T_def by (rule day_seconds_less [OF v])
  show ?case
  proof (cases "(D + 4 + i) mod 7 = w")
    case False
    have inv: "(D = D0 \<and> (\<forall>j<i + 1. (D0 + 4 + j) mod 7 = w \<longrightarrow> (D0 + j) * 86400 + T \<le> now + 10)) \<or>
       (D = D0 + 1 \<and> 2 \<le> i + 1 \<and> (D0 + 5) mod 7 = w \<and> (D0 + 1) * 86400 + T \<le> now + 10)"
      using Suc.prems(2) False by (auto simp: less_Suc_eq)
    from False have nb: "\<not> bit (push_bit w 1 :: 8 word) ((D + 4 + i) mod 7)"
      by (simp only: bit_single [OF w] not_False_eq_True)
    from Suc.hyps(1) [OF n i1 inv] show ?thesis
      by (simp only: mask_loop_skip [OF v i nb])
  next
    case True
    then have b: "bit (push_bit w 1 :: 8 word) ((D + 4 + i) mod 7)"
      by (simp only: bit_single [OF w])
    have D: "D = D0"
    proof (rule ccontr)
      assume "D \<noteq> D0"
      with Suc.prems(2) have a: "D = D0 + 1" "2 \<le> i" "(D0 + 5) mod 7 = w" by auto
      with True have "(D0 + 5 + i) mod 7 = (D0 + 5) mod 7" by (simp add: add.commute add.left_commute)
      from weekday_no_repeat [OF this a(2) i] show False .
    qed
    show ?thesis
    proof (cases "now + 10 < (D + i) * 86400 + T")
      case g: True
      have "mask_loop now (push_bit w 1) (tm_at D h m s) i = (D + i) * 86400 + T"
        unfolding T_def by (rule mask_loop_hit [OF v i b g [unfolded T_def]])
      moreover have "(D0 + i) * 86400 \<le> (D0 + 6) * 86400" using i by simp
      ultimately show ?thesis using db T D by simp
    next
      case g: False
      have step: "mask_loop now (push_bit w 1) (tm_at D h m s) i =
          mask_loop now (push_bit w 1) (tm_at (D + i) h m s) (i + 1)"
        by (rule mask_loop_miss [OF v i b g [unfolded T_def]])
      from guard_fails_early [OF db(2)] g D have "i \<le> 1" by simp
      then consider "i = 0" | "i = 1" by linarith
      then have inv: "(D + i = D0 \<and> (\<forall>j<i + 1. (D0 + 4 + j) mod 7 = w \<longrightarrow> (D0 + j) * 86400 + T \<le> now + 10)) \<or>
         (D + i = D0 + 1 \<and> 2 \<le> i + 1 \<and> (D0 + 5) mod 7 = w \<and> (D0 + 1) * 86400 + T \<le> now + 10)"
      proof cases
        case 1
        with g D show ?thesis by simp
      next
        case 2
        with g D True show ?thesis by (simp add: add.commute)
      qed
      from Suc.hyps(1) [OF n i1 inv] step show ?thesis by simp
    qed
  qed
qed

lemma GetNextShutdownTime_single_bit:
  fixes h m s :: "8 word"
  assumes v: "h \<le> 23" "m \<le> 59" "s \<le> 59" and w: "w < 7"
  shows "GetNextShutdownTime now (push_bit w 1) days h m s \<le> now + 7 * 86400 + 10"
proof -
  note u = unat_time_fields [OF v]
  have nz: "(push_bit w 1 :: 8 word) \<noteq> 0"
  proof
    assume z: "(push_bit w 1 :: 8 word) = 0"
    have "bit (push_bit w 1 :: 8 word) w" by (simp only: bit_single [OF w])
    then have "bit (0 :: 8 word) w" by (simp only: z)
    then show False by simp
  qed
  have "mask_loop now (push_bit w 1) (tm_at (now div 86400) (unat h) (unat m) (unat s)) 0
          \<le> now + 7 * 86400 + 10"
    by (rule single_bit_bound [OF u w]) simp_all
  then show ?thesis by (simp only: GetNextShutdownTime_mask [OF nz])
qed

text \<open>A target at least 10 seconds after midnight: the guard can only reject today's
  candidate, so the loop returns the first qualifying offset.\<close>

lemma guard_fails_today:
  fixes now D0 i T :: nat
  assumes "now < D0 * 86400 + 86400" "10 \<le> T" "\<not> now + 10 < (D0 + i) * 86400 + T"
  shows "i = 0"
proof (rule ccontr)
  assume "i \<noteq> 0"
  then have "D0 + 1 \<le> D0 + i" by simp
  then have "(D0 + 1) * 86400 \<le> (D0 + i) * 86400" by (rule mult_le_mono1)
  with assms show False by simp
qed

lemma mask_loop_first_match:
  fixes now h m s :: nat
  defines "D0 \<equiv> now div 86400"
  defines "T \<equiv> day_seconds h m s"
  assumes v: "h < 24" "m < 60" "s < 60" and T: "10 \<le> T"
  shows "i \<le> 7 \<Longrightarrow> mask_loop now wmask (tm_at D0 h m s) i =
     (case filter (\<lambda>j. bit wmask ((D0 + 4 + j) mod 7) \<and> now + 10 < (D0 + j) * 86400 + T) [i..<7] of
        [] \<Rightarrow> (D0 + 7) * 86400 + T
      | j # _ \<Rightarrow> (D0 + j) * 86400 + T)"
proof (induction "7 - i" arbitrary: i)
  case 0
  then have i: "\<not> i < 7" "i = 7" by simp_all
  have e: "[i..<7] = []" using i by simp
  have r: "mask_loop now wmask (tm_at D0 h m s) i = (D0 + 7) * 86400 + T"
    unfolding T_def by (rule mask_loop_end [OF v i(1)])
  show ?case unfolding e r by simp
next
  case (Suc n)
  then have i: "i < 7" and n: "n = 7 - (i + 1)" and i1: "i + 1 \<le> 7" by simp_all
  note db = day_bounds [of now, folded D0_def]
  define P where "P = (\<lambda>j. bit wmask ((D0 + 4 + j) mod 7) \<and> now + 10 < (D0 + j) * 86400 + T)"
  note IH = Suc.hyps(1) [OF n i1, folded P_def]
  have u: "[i..<7] = i # [i + 1..<7]" using i by (simp add: upt_conv_Cons)
  have "mask_loop now wmask (tm_at D0 h m s) i =
     (case filter P [i..<7] of [] \<Rightarrow> (D0 + 7) * 86400 + T | j # _ \<Rightarrow> (D0 + j) * 86400 + T)"
  proof (cases "bit wmask ((D0 + 4 + i) mod 7)")
    case False
    then have "\<not> P i" by (simp add: P_def)
    then have "filter P [i..<7] = filter P [i + 1..<7]" unfolding u by simp
    with IH show ?thesis by (simp only: mask_loop_skip [OF v i False])
  next
    case b: True
    show ?thesis
    proof (cases "now + 10 < (D0 + i) * 86400 + T")
      case g: True
      with b have "P i" by (simp add: P_def)
      then have "filter P [i..<7] = i # filter P [i + 1..<7]" unfolding u by simp
      then show ?thesis
        by (simp only: mask_loop_hit [OF v i b g [unfolded T_def]] T_def list.case)
    next
      case g: False
      then have "\<not> P i" by (simp add: P_def)
      then have f: "filter P [i..<7] = filter P [i + 1..<7]" unfolding u by simp
      from guard_fails_today [OF db(2) T g] have z: "D0 + i = D0" by simp
      from IH show ?thesis
        by (simp only: mask_loop_miss [OF v i b g [unfolded T_def]] z f)
    qed
  qed
  then show ?case by (simp only: P_def)
qed

text \<open>The weekday of the result.\<close>

lemma mask_bit_below_7:
  fixes wmask :: "8 word"
  assumes "wmask \<noteq> 0" "wmask \<le> 127"
  shows "\<exists>w<7. bit wmask w"
proof -
  from assms(1) obtain n where n: "n < 8" "bit wmask n"
    by (auto simp: bit_eq_iff [of wmask 0] possible_bit_word)
  have "n \<noteq> 7"
  proof
    assume "n = 7"
    with n have "bit (unat wmask) 7" by (simp add: bit_unsigned_iff)
    moreover from assms(2) have "unat wmask < 128" by (simp add: word_le_nat_alt)
    ultimately show False by (simp add: bit_iff_odd)
  qed
  with n show ?thesis by (intro exI [of _ n]) simp
qed

lemma mask_loop_hits_mask:
  assumes v: "h < 24" "m < 60" "s < 60"
  shows "(\<exists>j. i \<le> j \<and> j < 7 \<and> bit wmask ((D + 4 + j) mod 7)) \<or> bit wmask ((D + 4) mod 7) \<Longrightarrow>
     \<exists>d. mask_loop now wmask (tm_at D h m s) i = d * 86400 + day_seconds h m s \<and>
         bit wmask ((d + 4) mod 7)"
proof (induction "7 - i" arbitrary: i D)
  case 0
  then have i: "\<not> i < 7" by simp
  with "0.prems" have "bit wmask ((D + 4) mod 7)" by auto
  moreover have "(D + 7 + 4) mod 7 = (D + 4) mod 7"
  proof -
    have "(D + 7 + 4) mod 7 = (D + 4 + 7) mod 7" by (simp add: add.commute add.left_commute)
    also have "\<dots> = (D + 4) mod 7" by (rule mod_add_self2)
    finally show ?thesis .
  qed
  ultimately have "bit wmask ((D + 7 + 4) mod 7)" by (simp only:)
  with mask_loop_end [OF v i, of now wmask D] show ?case by blast
next
  case (Suc n)
  then have i: "i < 7" and n: "n = 7 - (i + 1)" by simp_all
  show ?case
  proof (cases "bit wmask ((D + 4 + i) mod 7)")
    case False
    with Suc.prems have "(\<exists>j. i + 1 \<le> j \<and> j < 7 \<and> bit wmask ((D + 4 + j) mod 7)) \<or> bit wmask ((D + 4) mod 7)"
      by (metis Suc_eq_plus1 Suc_leI le_neq_implies_less)
    from Suc.hyps(1) [OF n this] show ?thesis
      by (simp only: mask_loop_skip [OF v i False])
  next
    case b: True
    have "D + 4 + i = D + i + 4" by simp
    with b have b': "bit wmask ((D + i + 4) mod 7)" by (simp only:)
    show ?thesis
    proof (cases "now + 10 < (D + i) * 86400 + day_seconds h m s")
      case True
      from mask_loop_hit [OF v i b True] b' show ?thesis by blast
    next
      case False
      from b' have "(\<exists>j. i + 1 \<le> j \<and> j < 7 \<and> bit wmask ((D + i + 4 + j) mod 7)) \<or> bit wmask ((D + i + 4) mod 7)"
        by blast
      from Suc.hyps(1) [OF n this] show ?thesis
        by (simp only: mask_loop_miss [OF v i b False])
    qed
  qed
qed

text \<open>The loop when no offset qualifies: only the match of tomorrow can be rejected and
  move the struct.\<close>

lemma mask_loop_skips:
  assumes v: "h < 24" "m < 60" "s < 60"
  shows "i \<le> k \<Longrightarrow> k \<le> 7 \<Longrightarrow> (\<forall>j. i \<le> j \<and> j < k \<longrightarrow> \<not> bit wmask ((D + 4 + j) mod 7)) \<Longrightarrow>
     mask_loop now wmask (tm_at D h m s) i = mask_loop now wmask (tm_at D h m s) k"
proof (induction "k - i" arbitrary: i)
  case 0
  then show ?case by simp
next
  case (Suc n)
  then have i: "i < 7" "i < k" and n: "n = k - (i + 1)" and i1: "i + 1 \<le> k" by simp_all
  from Suc.prems(3) i have b: "\<not> bit wmask ((D + 4 + i) mod 7)" by simp
  from Suc.prems(3) have r: "\<forall>j. i + 1 \<le> j \<and> j < k \<longrightarrow> \<not> bit wmask ((D + 4 + j) mod 7)" by simp
  from Suc.hyps(1) [OF n i1 Suc.prems(2) r] show ?case
    by (simp only: mask_loop_skip [OF v i(1) b])
qed

lemma mask_loop_fallback:
  fixes now h m s :: nat
  defines "D0 \<equiv> now div 86400"
  defines "T \<equiv> day_seconds h m s"
  assumes v: "h < 24" "m < 60" "s < 60"
    and q: "\<forall>j<7. bit wmask ((D0 + 4 + j) mod 7) \<longrightarrow> \<not> now + 10 < (D0 + j) * 86400 + T"
  shows "mask_loop now wmask (tm_at D0 h m s) 0 =
     (if bit wmask ((D0 + 4 + 1) mod 7) \<and> \<not> bit wmask ((D0 + 4 + 0) mod 7)
      then (D0 + 8) * 86400 + T else (D0 + 7) * 86400 + T)"
proof -
  note db = day_bounds [of now, folded D0_def]
  have far: "now + 10 < (D0 + j) * 86400 + T" if "2 \<le> j" for j
  proof -
    from that have "D0 + 2 \<le> D0 + j" by simp
    then have "(D0 + 2) * 86400 \<le> (D0 + j) * 86400" by (rule mult_le_mono1)
    with db(2) show ?thesis by simp
  qed
  have nb: "\<not> bit wmask ((D0 + 4 + j) mod 7)" if "2 \<le> j" "j < 7" for j
    using q that far [OF that(1)] by blast
  have sh: "(D0 + 1 + 4 + j) mod 7 = (D0 + 4 + (j + 1)) mod 7" for j
    by (rule arg_cong [where f = "\<lambda>x. x mod 7"]) simp
  have wrap: "(D0 + 1 + 4 + 6) mod 7 = (D0 + 4 + 0) mod 7"
  proof -
    have "D0 + 1 + 4 + 6 = D0 + 4 + 0 + 7" by simp
    then show ?thesis by (simp only: mod_add_self2)
  qed
  have q': "\<not> now + 10 < (D0 + j) * 86400 + day_seconds h m s"
    if "j < 7" "bit wmask ((D0 + 4 + j) mod 7)" for j
    using q that unfolding T_def by blast
  have n: "(0::nat) + 1 = 1" "(1::nat) + 1 = 2" "(6::nat) + 1 = 7" "D0 + 0 = D0" by simp_all
  have s0: "mask_loop now wmask (tm_at D0 h m s) 0 = mask_loop now wmask (tm_at D0 h m s) 1"
  proof (cases "bit wmask ((D0 + 4 + 0) mod 7)")
    case False
    have "mask_loop now wmask (tm_at D0 h m s) 0 = mask_loop now wmask (tm_at D0 h m s) (0 + 1)"
      by (rule mask_loop_skip [OF v _ False]) simp
    then show ?thesis by (simp only: n)
  next
    case True
    have g: "\<not> now + 10 < (D0 + 0) * 86400 + day_seconds h m s" by (rule q' [OF _ True]) simp
    have "mask_loop now wmask (tm_at D0 h m s) 0 = mask_loop now wmask (tm_at (D0 + 0) h m s) (0 + 1)"
      by (rule mask_loop_miss [OF v _ True g]) simp
    then show ?thesis by (simp only: n)
  qed
  show ?thesis
  proof (cases "bit wmask ((D0 + 4 + 1) mod 7)")
    case b1: False
    have s1: "mask_loop now wmask (tm_at D0 h m s) 1 = mask_loop now wmask (tm_at D0 h m s) 7"
    proof (rule mask_loop_skips [OF v])
      show "\<forall>j::nat. 1 \<le> j \<and> j < 7 \<longrightarrow> \<not> bit wmask ((D0 + 4 + j) mod 7)"
      proof (intro allI impI)
        fix j :: nat assume j: "1 \<le> j \<and> j < 7"
        show "\<not> bit wmask ((D0 + 4 + j) mod 7)"
        proof (cases "j = 1")
          case True with b1 show ?thesis by simp
        next
          case False with j have "2 \<le> j" by simp
          with j show ?thesis by (simp add: nb)
        qed
      qed
    qed simp_all
    have e: "mask_loop now wmask (tm_at D0 h m s) 7 = (D0 + 7) * 86400 + T"
      unfolding T_def by (rule mask_loop_end [OF v]) simp
    from b1 show ?thesis by (simp only: s0 s1 e simp_thms if_False)
  next
    case b1: True
    have g1: "\<not> now + 10 < (D0 + 1) * 86400 + day_seconds h m s" by (rule q' [OF _ b1]) simp
    have "mask_loop now wmask (tm_at D0 h m s) 1 = mask_loop now wmask (tm_at (D0 + 1) h m s) (1 + 1)"
      by (rule mask_loop_miss [OF v _ b1 g1]) simp
    then have m1: "mask_loop now wmask (tm_at D0 h m s) 1 = mask_loop now wmask (tm_at (D0 + 1) h m s) 2"
      by (simp only: n)
    have s2: "mask_loop now wmask (tm_at (D0 + 1) h m s) 2 = mask_loop now wmask (tm_at (D0 + 1) h m s) 6"
    proof (rule mask_loop_skips [OF v])
      show "\<forall>j::nat. 2 \<le> j \<and> j < 6 \<longrightarrow> \<not> bit wmask ((D0 + 1 + 4 + j) mod 7)"
      proof (intro allI impI)
        fix j :: nat assume j: "2 \<le> j \<and> j < 6"
        then have "2 \<le> j + 1" "j + 1 < 7" by simp_all
        then have "\<not> bit wmask ((D0 + 4 + (j + 1)) mod 7)" by (rule nb)
        then show "\<not> bit wmask ((D0 + 1 + 4 + j) mod 7)" unfolding sh .
      qed
    qed simp_all
    show ?thesis
    proof (cases "bit wmask ((D0 + 4 + 0) mod 7)")
      case b0: True
      from b0 have b6: "bit wmask ((D0 + 1 + 4 + 6) mod 7)" unfolding wrap .
      have g6: "now + 10 < (D0 + 1 + 6) * 86400 + day_seconds h m s"
        using far [of 7] by (simp add: T_def)
      have h6: "mask_loop now wmask (tm_at (D0 + 1) h m s) 6 = (D0 + 1 + 6) * 86400 + day_seconds h m s"
        by (rule mask_loop_hit [OF v _ b6 g6]) simp
      have "(D0 + 1 + 6) * 86400 + day_seconds h m s = (D0 + 7) * 86400 + T" by (simp add: T_def)
      with b0 b1 show ?thesis by (simp only: s0 m1 s2 h6 simp_thms if_False)
    next
      case b0: False
      from b0 have b6: "\<not> bit wmask ((D0 + 1 + 4 + 6) mod 7)" unfolding wrap .
      have "mask_loop now wmask (tm_at (D0 + 1) h m s) 6 = mask_loop now wmask (tm_at (D0 + 1) h m s) (6 + 1)"
        by (rule mask_loop_skip [OF v _ b6]) simp
      then have s6: "mask_loop now wmask (tm_at (D0 + 1) h m s) 6 = mask_loop now wmask (tm_at (D0 + 1) h m s) 7"
        by (simp only: n)
      have e: "mask_loop now wmask (tm_at (D0 + 1) h m s) 7 = (D0 + 1 + 7) * 86400 + day_seconds h m s"
        by (rule mask_loop_end [OF v]) simp
      have "(D0 + 1 + 7) * 86400 + day_seconds h m s = (D0 + 8) * 86400 + T" by (simp add: T_def)
      with b0 b1 show ?thesis by (simp only: s0 m1 s2 s6 e simp_thms if_True)
    qed
  qed
qed

section \<open>The arithmetic of \<open>Init\<close>\<close>

lemma ucast_64_32_of_nat: "(ucast (word_of_nat n :: 64 word) :: 32 word) = word_of_nat n"
  by (simp add: unsigned_of_nat word_of_nat_eq_iff min_def)

lemma ucast_32_64_of_nat: "(ucast (word_of_nat n :: 32 word) :: 64 word) = word_of_nat (n mod 2 ^ 32)"
  by (simp add: unsigned_of_nat take_bit_eq_mod)

lemma diffToShutdown_eq:
  assumes "n \<le> N"
  shows "(ucast ((word_of_nat N :: 64 word) - ucast (word_of_nat n :: 32 word)) :: 32 word) = word_of_nat (N - n)"
proof -
  define k where "k = n mod 2 ^ 32"
  have kn: "k \<le> n" by (simp add: k_def)
  with assms have "(word_of_nat N :: 64 word) - word_of_nat k = word_of_nat (N - k)"
    by simp
  then have "(ucast ((word_of_nat N :: 64 word) - ucast (word_of_nat n :: 32 word)) :: 32 word) = word_of_nat (N - k)"
    by (simp add: ucast_32_64_of_nat k_def ucast_64_32_of_nat)
  also have "N - k = (N - n) + 2 ^ 32 * (n div 2 ^ 32)"
  proof -
    have "n = 2 ^ 32 * (n div 2 ^ 32) + k" by (simp add: k_def)
    with assms show ?thesis by linarith
  qed
  also have "(word_of_nat ((N - n) + 2 ^ 32 * (n div 2 ^ 32)) :: 32 word) = word_of_nat (N - n)"
    by (subst word_of_nat_eq_iff) (simp add: take_bit_eq_mod)
  finally show ?thesis .
qed

lemma diffToPreAnnounce_eq:
  assumes "n \<le> N"
  shows "(ucast (word_of_nat N :: 64 word) :: 32 word) - p - word_of_nat n = word_of_nat (N - n) - p"
  using assms by (simp add: ucast_64_32_of_nat)

lemma unat_of_nat32: "x < 2 ^ 32 \<Longrightarrow> unat (word_of_nat x :: 32 word) = x"
  by (simp add: unat_of_nat)

lemma interval_advance: "unat days \<le> 49710 \<Longrightarrow> unat (86400 * days :: 32 word) = 86400 * unat days"
proof -
  assume a: "unat days \<le> 49710"
  have "unat (86400 :: 32 word) * unat days < 2 ^ LENGTH(32)" using a by simp
  then have "unat (86400 * days) = unat (86400 :: 32 word) * unat days"
    by (simp only: unat_mult_lem)
  then show ?thesis by simp
qed

lemma GetNextShutdownTime_bounds:
  fixes h m s :: "8 word"
  assumes v: "h \<le> 23" "m \<le> 59" "s \<le> 59" and d: "1 \<le> days" "days \<le> 365"
  shows "now < GetNextShutdownTime now wmask days h m s"
    and "GetNextShutdownTime now wmask days h m s \<le> now + 366 * 86400"
proof -
  note u = unat_time_fields [OF v]
  note db = day_bounds [of now]
  have T: "day_seconds (unat h) (unat m) (unat s) < 86400" by (rule day_seconds_less [OF u])
  have c: "candidate now h m s 0 = now div 86400 * 86400 + day_seconds (unat h) (unat m) (unat s)"
    by (simp add: candidate_eq day_seconds_def)
  from d have du: "1 \<le> unat days" "unat days \<le> 365" by (simp_all add: word_le_nat_alt)
  then have adv: "unat (86400 * days) = 86400 * unat days" by (simp add: interval_advance)
  have "now < GetNextShutdownTime now wmask days h m s \<and>
        GetNextShutdownTime now wmask days h m s \<le> now + 366 * 86400"
  proof (cases "wmask = 0")
    case False
    from mask_loop_bounds [OF u, of 0 now "now div 86400" wmask]
    have "now < GetNextShutdownTime now wmask days h m s"
      "GetNextShutdownTime now wmask days h m s
         \<le> (now div 86400 + 8) * 86400 + day_seconds (unat h) (unat m) (unat s)"
      by (simp_all add: GetNextShutdownTime_mask [OF False] day_seconds_def)
    moreover have "(now div 86400 + 8) * 86400 = now div 86400 * 86400 + 8 * 86400"
      by (rule distrib_right)
    ultimately show ?thesis using db T by linarith
  next
    case True
    show ?thesis
    proof (cases "days > 1 \<or> candidate now h m s 0 \<le> now + 10")
      case a: True
      then have r: "GetNextShutdownTime now wmask days h m s = candidate now h m s 0 + 86400 * unat days"
        by (simp add: True GetNextShutdownTime_interval adv)
      have "now < candidate now h m s 0 + 86400 * unat days"
      proof (cases "days > 1")
        case True
        then have "2 \<le> unat days" by (simp add: word_less_nat_alt)
        then have "2 * 86400 \<le> 86400 * unat days" by simp
        with db c show ?thesis by linarith
      next
        case False
        with du db c show ?thesis by linarith
      qed
      moreover have "candidate now h m s 0 + 86400 * unat days \<le> now + 366 * 86400"
        using du db c T by linarith
      ultimately show ?thesis by (simp add: r)
    next
      case a: False
      then have r: "GetNextShutdownTime now wmask days h m s = candidate now h m s 0"
        by (simp add: True GetNextShutdownTime_interval)
      from a db c T show ?thesis unfolding r by linarith
    qed
  qed
  then show "now < GetNextShutdownTime now wmask days h m s"
    and "GetNextShutdownTime now wmask days h m s \<le> now + 366 * 86400" by simp_all
qed

lemma nextShutdown_bounds:
  assumes "valid_config cfg"
  shows "now < nextShutdown cfg now" "nextShutdown cfg now - now < 2 ^ 32"
proof -
  from assms have v: "cfg_restartHour cfg \<le> 23" "cfg_restartMinute cfg \<le> 59"
    "cfg_restartSecond cfg \<le> 59" "1 \<le> cfg_EveryDays cfg" "cfg_EveryDays cfg \<le> 365"
    by (simp_all add: valid_config_def)
  from GetNextShutdownTime_bounds [OF v] show "now < nextShutdown cfg now"
    by (simp add: nextShutdown_def)
  from GetNextShutdownTime_bounds(2) [OF v, of now "cfg_WeekdayMask cfg"]
  have "nextShutdown cfg now - now \<le> 366 * 86400" by (simp add: nextShutdown_def)
  then show "nextShutdown cfg now - now < 2 ^ 32" by simp
qed

section \<open>The scheduler and the announce task\<close>

lemma PreAnnounceTask_effect:
  "ServerMessages (PreAnnounceTask g s) = ServerMessages s @ [g]"
  "ShutdownTimer (PreAnnounceTask g s) = Some g"
  "sched_tasks (PreAnnounceTask g s) = sched_tasks s"
  "sched_now (PreAnnounceTask g s) = sched_now s"
  "isEnableModule (PreAnnounceTask g s) = isEnableModule s"
  by (simp_all add: PreAnnounceTask_def ShutdownServ_def SendServerMessage_def)

lemma Dispatch_empty: "sched_tasks s = [] \<Longrightarrow> Dispatch s = s"
  by (subst Dispatch.simps) simp

lemma Dispatch_single:
  "sched_tasks s = [(e, g)] \<Longrightarrow>
   Dispatch s = (if sched_now s < e then s else PreAnnounceTask g (s\<lparr>sched_tasks := []\<rparr>))"
  by (subst Dispatch.simps) (simp add: Dispatch_empty PreAnnounceTask_effect)

text \<open>What the scheduler and the world server hold after an \<open>Init\<close> that scheduled
  \<open>task\<close>, whatever updates follow: the task is pending and no shutdown is requested, or
  it has fired and the shutdown it asked for is counting down.\<close>

lemma OnUpdate_pending_or_fired:
  assumes "(sched_tasks s = [task] \<and> ShutdownTimer s = None) \<or>
           (sched_tasks s = [] \<and> ShutdownTimer s = Some (snd task))"
  shows "(sched_tasks (OnUpdate d s) = [task] \<and> ShutdownTimer (OnUpdate d s) = None) \<or>
         (sched_tasks (OnUpdate d s) = [] \<and> ShutdownTimer (OnUpdate d s) = Some (snd task))"
proof (cases "isEnableModule s")
  case False
  with assms show ?thesis by (simp add: OnUpdate_def)
next
  case True
  obtain e g where t: "task = (e, g)" by (cases task)
  from assms show ?thesis
  proof
    assume a: "sched_tasks s = [task] \<and> ShutdownTimer s = None"
    then have "sched_tasks (s\<lparr>sched_now := sched_now s + unat d\<rparr>) = [(e, g)]" by (simp add: t)
    from Dispatch_single [OF this] a True show ?thesis
      by (simp add: OnUpdate_def Update_def t PreAnnounceTask_effect)
  next
    assume a: "sched_tasks s = [] \<and> ShutdownTimer s = Some (snd task)"
    then have "sched_tasks (s\<lparr>sched_now := sched_now s + unat d\<rparr>) = []" by simp
    from Dispatch_empty [OF this] a True show ?thesis
      by (simp add: OnUpdate_def Update_def)
  qed
qed

lemma updates_pending_or_fired:
  "(sched_tasks s = [task] \<and> ShutdownTimer s = None) \<or>
   (sched_tasks s = [] \<and> ShutdownTimer s = Some (snd task)) \<Longrightarrow>
   (sched_tasks (foldl (\<lambda>s d. OnUpdate d s) s diffs) = [task] \<and>
    ShutdownTimer (foldl (\<lambda>s d. OnUpdate d s) s diffs) = None) \<or>
   (sched_tasks (foldl (\<lambda>s d. OnUpdate d s) s diffs) = [] \<and>
    ShutdownTimer (foldl (\<lambda>s d. OnUpdate d s) s diffs) = Some (snd task))"
proof (induction diffs arbitrary: s)
  case Nil
  then show ?case by simp
next
  case (Cons d diffs)
  from Cons.IH [OF OnUpdate_pending_or_fired [OF Cons.prems, of d]] show ?case by simp
qed

lemma Schedule_empty:
  "sched_tasks st = [] \<Longrightarrow>
   Schedule d g st = st\<lparr>sched_tasks := [(sched_now st + 1000 * d, g)]\<rparr>"
  by (simp add: Schedule_def)

text \<open>The updates on the scheduler's clock: the task fires in the update that reaches its
  end, and a disabled module is left alone.\<close>

lemma OnUpdate_pending:
  assumes "isEnableModule s" "sched_tasks s = [(e, g)]"
  shows "OnUpdate d s =
     (if sched_now s + unat d < e then s\<lparr>sched_now := sched_now s + unat d\<rparr>
      else PreAnnounceTask g (s\<lparr>sched_now := sched_now s + unat d, sched_tasks := []\<rparr>))"
proof -
  from assms(2) have "sched_tasks (s\<lparr>sched_now := sched_now s + unat d\<rparr>) = [(e, g)]" by simp
  from Dispatch_single [OF this] assms(1) show ?thesis
    by (simp add: OnUpdate_def Update_def)
qed

lemma OnUpdate_fired:
  assumes "isEnableModule s" "sched_tasks s = []"
  shows "OnUpdate d s = s\<lparr>sched_now := sched_now s + unat d\<rparr>"
proof -
  from assms(2) have "sched_tasks (s\<lparr>sched_now := sched_now s + unat d\<rparr>) = []" by simp
  from Dispatch_empty [OF this] assms(1) show ?thesis
    by (simp add: OnUpdate_def Update_def)
qed

lemma OnUpdate_step:
  assumes "isEnableModule s" "sched_tasks s = [(e, g)]" "ShutdownTimer s = None"
  shows "isEnableModule (OnUpdate d s)" "sched_now (OnUpdate d s) = sched_now s + unat d"
    "(sched_tasks (OnUpdate d s) = [(e, g)] \<and> ShutdownTimer (OnUpdate d s) = None \<and>
      sched_now (OnUpdate d s) < e) \<or>
     (sched_tasks (OnUpdate d s) = [] \<and> ShutdownTimer (OnUpdate d s) = Some g \<and>
      e \<le> sched_now (OnUpdate d s))"
  unfolding OnUpdate_pending [OF assms(1,2)] using assms
  by (simp_all add: PreAnnounceTask_effect)

lemma OnUpdate_after:
  assumes "isEnableModule s" "sched_tasks s = []" "ShutdownTimer s = Some g" "e \<le> sched_now s"
  shows "isEnableModule (OnUpdate d s)" "sched_now (OnUpdate d s) = sched_now s + unat d"
    "sched_tasks (OnUpdate d s) = []" "ShutdownTimer (OnUpdate d s) = Some g"
    "e \<le> sched_now (OnUpdate d s)"
  unfolding OnUpdate_fired [OF assms(1,2)] using assms by simp_all

lemma updates_clock:
  assumes "isEnableModule s"
    and "(sched_tasks s = [(e, g)] \<and> ShutdownTimer s = None \<and> sched_now s < e) \<or>
         (sched_tasks s = [] \<and> ShutdownTimer s = Some g \<and> e \<le> sched_now s)"
  shows "ShutdownTimer (foldl (\<lambda>s d. OnUpdate d s) s ds) =
     (if sched_now s + sum_list (map unat ds) < e then None else Some g)"
  using assms
proof (induction ds arbitrary: s)
  case Nil
  then show ?case by auto
next
  case (Cons d ds)
  let ?s1 = "OnUpdate d s"
  have "isEnableModule ?s1 \<and> sched_now ?s1 = sched_now s + unat d \<and>
     ((sched_tasks ?s1 = [(e, g)] \<and> ShutdownTimer ?s1 = None \<and> sched_now ?s1 < e) \<or>
      (sched_tasks ?s1 = [] \<and> ShutdownTimer ?s1 = Some g \<and> e \<le> sched_now ?s1))"
    using Cons.prems(2)
  proof
    assume p: "sched_tasks s = [(e, g)] \<and> ShutdownTimer s = None \<and> sched_now s < e"
    then have p': "sched_tasks s = [(e, g)]" "ShutdownTimer s = None" by simp_all
    from OnUpdate_step [OF Cons.prems(1) p', of d] show ?thesis by blast
  next
    assume p: "sched_tasks s = [] \<and> ShutdownTimer s = Some g \<and> e \<le> sched_now s"
    then have p': "sched_tasks s = []" "ShutdownTimer s = Some g" "e \<le> sched_now s" by simp_all
    from OnUpdate_after [OF Cons.prems(1) p', of d] show ?thesis by blast
  qed
  then have c: "sched_now ?s1 = sched_now s + unat d" and en: "isEnableModule ?s1"
    and inv: "(sched_tasks ?s1 = [(e, g)] \<and> ShutdownTimer ?s1 = None \<and> sched_now ?s1 < e) \<or>
         (sched_tasks ?s1 = [] \<and> ShutdownTimer ?s1 = Some g \<and> e \<le> sched_now ?s1)"
    by blast+
  from Cons.IH [OF en inv] show ?case by (simp add: c add.assoc)
qed

lemma updates_fire:
  assumes "isEnableModule s" "sched_tasks s = [(e, g)]" "ShutdownTimer s = None"
  shows "ShutdownTimer (foldl (\<lambda>s d. OnUpdate d s) s (d # ds)) =
     (if sched_now s + (unat d + sum_list (map unat ds)) < e then None else Some g)"
proof -
  note st = OnUpdate_step [OF assms, of d]
  from updates_clock [OF st(1,3), of ds] show ?thesis by (simp add: st(2) add.assoc)
qed

lemma updates_disabled:
  "\<not> isEnableModule s \<Longrightarrow> foldl (\<lambda>s d. OnUpdate d s) s diffs = s"
  by (induction diffs) (simp_all add: OnUpdate_def)

section \<open>\<open>Init\<close> on invalid and on valid configurations\<close>

lemma StartEvents_loop_frame:
  "StartEvents_loop toks st = Inr st' \<Longrightarrow> st' = st\<lparr>ActiveEvents := ActiveEvents st'\<rparr>"
proof (induction toks arbitrary: st)
  case Nil
  then show ?case by simp
next
  case (Cons tok toks)
  show ?case
  proof (cases "tok = []")
    case True
    with Cons show ?thesis by simp
  next
    case False
    with Cons.prems obtain eventId where e: "StringTo_uint32 tok = Some eventId"
      "unat eventId < EventMapSize st"
      "StartEvents_loop toks (StartEvent eventId st) = Inr st'"
      by (auto split: option.splits if_splits)
    from Cons.IH [OF e(3)] have "st' = (StartEvent eventId st)\<lparr>ActiveEvents := ActiveEvents st'\<rparr>" .
    then show ?thesis by (simp add: StartEvent_def)
  qed
qed

lemma StartPersistentGameEvents_frame:
  "StartPersistentGameEvents cfg st = Inr st' \<Longrightarrow> st' = st\<lparr>ActiveEvents := ActiveEvents st'\<rparr>"
  unfolding StartPersistentGameEvents_def by (rule StartEvents_loop_frame)

lemma Init_invalid:
  "\<not> valid_config cfg \<Longrightarrow> Init cfg now st = Inr (st\<lparr>isEnableModule := False\<rparr>)"
  by (auto simp: Init_def valid_config_def Let_def cfg_restartHour_def cfg_restartMinute_def
      cfg_restartSecond_def not_le not_less)

lemma Init_valid:
  assumes v: "valid_config cfg"
  shows "Init cfg now st =
     (case StartPersistentGameEvents cfg (st\<lparr>isEnableModule := True, sched_tasks := [], ShutdownTimer := None\<rparr>) of
        Inl e \<Rightarrow> Inl e
      | Inr st2 \<Rightarrow>
          Inr (if nextShutdown cfg now - now < unat (leadSeconds cfg)
               then Schedule 1 (word_of_nat (nextShutdown cfg now - now)) st2
               else Schedule (nextShutdown cfg now - now - unat (leadSeconds cfg)) (leadSeconds cfg) st2))"
proof -
  define N where "N = nextShutdown cfg now"
  define L where "L = leadSeconds cfg"
  note nb = nextShutdown_bounds [OF v, of now, folded N_def]
  from nb have le: "now \<le> N" by simp
  have N: "GetNextShutdownTime now (cfg_WeekdayMask cfg) (cfg_EveryDays cfg)
       (the (StringTo_uint8 (Tokenize (cfg_Time cfg) CHR '':'' False ! 0)))
       (the (StringTo_uint8 (Tokenize (cfg_Time cfg) CHR '':'' False ! 1)))
       (the (StringTo_uint8 (Tokenize (cfg_Time cfg) CHR '':'' False ! 2))) = N"
    by (simp add: N_def nextShutdown_def cfg_restartHour_def cfg_restartMinute_def cfg_restartSecond_def)
  have ds: "(ucast ((word_of_nat N :: 64 word) - ucast (word_of_nat now :: 32 word)) :: 32 word)
      = word_of_nat (N - now)"
    by (rule diffToShutdown_eq [OF le])
  have dp: "(ucast (word_of_nat N :: 64 word) :: 32 word) - L - word_of_nat now = word_of_nat (N - now) - L"
    by (rule diffToPreAnnounce_eq [OF le])
  have un: "unat (word_of_nat (N - now) :: 32 word) = N - now"
    by (rule unat_of_nat32 [OF nb(2)])
  have lt: "((word_of_nat (N - now) :: 32 word) < L) = (N - now < unat L)"
    by (simp add: word_less_nat_alt un)
  have sub: "\<not> N - now < unat L \<Longrightarrow> unat ((word_of_nat (N - now) :: 32 word) - L) = N - now - unat L"
  proof -
    assume "\<not> N - now < unat L"
    then have "L \<le> word_of_nat (N - now)" by (simp add: word_le_nat_alt un)
    then show ?thesis by (simp add: unat_sub un)
  qed
  from v have g: "cfg_Enabled cfg" "length (Tokenize (cfg_Time cfg) CHR '':'' False) = 3"
    "CheckTime (Tokenize (cfg_Time cfg) CHR '':'' False) [0, 1, 2]"
    "\<not> cfg_WeekdayMask cfg > 127" "\<not> (cfg_EveryDays cfg < 1 \<or> cfg_EveryDays cfg > 365)"
    "\<not> (the (StringTo_uint8 (Tokenize (cfg_Time cfg) CHR '':'' False ! 0)) > 23 \<or>
        the (StringTo_uint8 (Tokenize (cfg_Time cfg) CHR '':'' False ! 1)) > 59 \<or>
        the (StringTo_uint8 (Tokenize (cfg_Time cfg) CHR '':'' False ! 2)) > 59)"
    unfolding valid_config_def cfg_restartHour_def cfg_restartMinute_def cfg_restartSecond_def
    by (auto simp: not_le not_less word_less_nat_alt word_le_nat_alt simp del: CheckTime.simps)
  show ?thesis
    unfolding Init_def N_def [symmetric] L_def [symmetric]
    apply (simp only: g Let_def if_True if_False not_True_eq_False not_False_eq_True N
        leadSeconds_def [symmetric] L_def [symmetric] ds dp lt simp_thms)
    apply (simp add: CancelAll_def ShutdownCancel_def sub split: sum.splits)
    done
qed

lemma Init_enabled_valid:
  "Init cfg now st = Inr st' \<Longrightarrow> isEnableModule st' \<Longrightarrow> valid_config cfg"
  using Init_invalid [of cfg now st] by (cases "valid_config cfg") auto

lemma Init_valid_enabled:
  assumes v: "valid_config cfg" and i: "Init cfg now st = Inr st'"
  shows "isEnableModule st'"
proof -
  let ?st1 = "st\<lparr>isEnableModule := True, sched_tasks := [], ShutdownTimer := None\<rparr>"
  from i obtain st2 where s: "StartPersistentGameEvents cfg ?st1 = Inr st2"
    and r: "st' = (if nextShutdown cfg now - now < unat (leadSeconds cfg)
               then Schedule 1 (word_of_nat (nextShutdown cfg now - now)) st2
               else Schedule (nextShutdown cfg now - now - unat (leadSeconds cfg)) (leadSeconds cfg) st2)"
    unfolding Init_valid [OF v] by (auto split: sum.splits)
  from StartPersistentGameEvents_frame [OF s]
  have "isEnableModule st2"
    by (metis (no_types, lifting) module_state.select_convs module_state.surjective module_state.update_convs)
  then show ?thesis unfolding r by (simp add: Schedule_def)
qed

lemma Init_returns:
  assumes v: "valid_config cfg" and n: "cfg_StartEvents cfg = []"
  shows "\<exists>st'. Init cfg nowTime st = Inr st'"
  unfolding Init_valid [OF v] by (simp add: StartPersistentGameEvents_def n Tokenize_def)

lemma Init_enabled_state:
  assumes i: "Init cfg now st = Inr st'" and e: "isEnableModule st'"
  shows "st' = st\<lparr>isEnableModule := True,
            sched_tasks := [if nextShutdown cfg now - now < unat (leadSeconds cfg)
                            then (sched_now st + 1000, word_of_nat (nextShutdown cfg now - now))
                            else (sched_now st + 1000 * (nextShutdown cfg now - now - unat (leadSeconds cfg)),
                                  leadSeconds cfg)],
            ShutdownTimer := None, ActiveEvents := ActiveEvents st'\<rparr>"
proof -
  from i e have v: "valid_config cfg" by (rule Init_enabled_valid)
  let ?st1 = "st\<lparr>isEnableModule := True, sched_tasks := [], ShutdownTimer := None\<rparr>"
  from i obtain st2 where s: "StartPersistentGameEvents cfg ?st1 = Inr st2"
    and r: "st' = (if nextShutdown cfg now - now < unat (leadSeconds cfg)
               then Schedule 1 (word_of_nat (nextShutdown cfg now - now)) st2
               else Schedule (nextShutdown cfg now - now - unat (leadSeconds cfg)) (leadSeconds cfg) st2)"
    unfolding Init_valid [OF v] by (auto split: sum.splits)
  from StartPersistentGameEvents_frame [OF s]
  have f: "st2 = ?st1\<lparr>ActiveEvents := ActiveEvents st2\<rparr>" .
  then have t: "sched_tasks st2 = []" "sched_now st2 = sched_now st"
    by (metis (no_types, lifting) module_state.select_convs module_state.surjective module_state.update_convs)+
  show ?thesis
    unfolding r using t
    by (subst (1 2 3) f) (simp add: Schedule_empty)
qed

lemma Init_enabled_tasks:
  assumes i: "Init cfg now st = Inr st'" and e: "isEnableModule st'"
  shows "sched_tasks st' = [if nextShutdown cfg now - now < unat (leadSeconds cfg)
                            then (sched_now st + 1000, word_of_nat (nextShutdown cfg now - now))
                            else (sched_now st + 1000 * (nextShutdown cfg now - now - unat (leadSeconds cfg)),
                                  leadSeconds cfg)]"
    and "ShutdownTimer st' = None" and "sched_now st' = sched_now st"
  by (subst Init_enabled_state [OF i e], simp)+

lemma Init_enabled_task:
  assumes i: "Init cfg now st = Inr st'" and e: "isEnableModule st'"
  shows "\<exists>task. sched_tasks st' = [task] \<and> ShutdownTimer st' = None \<and>
     (if nextShutdown cfg now - now < unat (leadSeconds cfg)
      then fires_at now st (now + 1) task \<and> unat (snd task) = nextShutdown cfg now - now
      else fires_at now st (nextShutdown cfg now - unat (leadSeconds cfg)) task \<and>
           snd task = leadSeconds cfg)"
proof -
  from i e have v: "valid_config cfg" by (rule Init_enabled_valid)
  note nb = nextShutdown_bounds [OF v, of now]
  note t = Init_enabled_tasks [OF i e]
  show ?thesis
  proof (cases "nextShutdown cfg now - now < unat (leadSeconds cfg)")
    case True
    with t nb show ?thesis by (simp add: fires_at_def unat_of_nat32 del: of_nat_diff)
  next
    case False
    with nb(1) have a: "now \<le> nextShutdown cfg now - unat (leadSeconds cfg)"
      by linarith
    have b: "nextShutdown cfg now - now - unat (leadSeconds cfg) =
        nextShutdown cfg now - unat (leadSeconds cfg) - now"
      by linarith
    from a b False t show ?thesis by (simp add: fires_at_def)
  qed
qed

lemma leadSeconds_within_day:
  "cfg_PreAnnounce_Seconds cfg \<le> word_of_nat DAY \<Longrightarrow> leadSeconds cfg = cfg_PreAnnounce_Seconds cfg"
  by (simp add: leadSeconds_def not_less [symmetric])

text \<open>The sample configurations.\<close>

lemma valid_default: "valid_config default_config"
  by (simp add: valid_config_def default_config_def Tokenize_def StringTo_uint8_def StringTo_nat_def
      is_digit_def cfg_restartHour_def cfg_restartMinute_def cfg_restartSecond_def)

lemma default_time:
  "cfg_restartHour default_config = 4" "cfg_restartMinute default_config = 0"
  "cfg_restartSecond default_config = 0"
  by (simp_all add: default_config_def Tokenize_def StringTo_uint8_def StringTo_nat_def
      is_digit_def cfg_restartHour_def cfg_restartMinute_def cfg_restartSecond_def)

lemma next_default: "nextShutdown default_config 1793591995 = 1793678400"
  by (simp only: nextShutdown_def default_time)
     (simp add: default_config_def GetNextShutdownTime_interval candidate_eq)

lemma next_default2: "nextShutdown default_config 1793590200 = 1793592000"
  by (simp only: nextShutdown_def default_time)
     (simp add: default_config_def GetNextShutdownTime_interval candidate_eq)

lemma config_update_lead:
  "valid_config (cfg\<lparr>cfg_PreAnnounce_Seconds := x\<rparr>) = valid_config cfg"
  "nextShutdown (cfg\<lparr>cfg_PreAnnounce_Seconds := x\<rparr>) now = nextShutdown cfg now"
  by (simp_all add: valid_config_def nextShutdown_def cfg_restartHour_def cfg_restartMinute_def
      cfg_restartSecond_def del: CheckTime.simps)

lemma config_update_events:
  "valid_config (cfg\<lparr>cfg_StartEvents := x\<rparr>) = valid_config cfg"
  "nextShutdown (cfg\<lparr>cfg_StartEvents := x\<rparr>) now = nextShutdown cfg now"
  "leadSeconds (cfg\<lparr>cfg_StartEvents := x\<rparr>) = leadSeconds cfg"
  by (simp_all add: valid_config_def nextShutdown_def cfg_restartHour_def cfg_restartMinute_def
      cfg_restartSecond_def leadSeconds_def del: CheckTime.simps)

lemma no_events: "StartPersistentGameEvents (default_config\<lparr>cfg_PreAnnounce_Seconds := x\<rparr>) st = Inr st"
  by (simp add: StartPersistentGameEvents_def default_config_def Tokenize_def)

lemma Init_default_lead:
  "Init (default_config\<lparr>cfg_PreAnnounce_Seconds := x\<rparr>) now st =
     Inr (if nextShutdown default_config now - now < unat (leadSeconds (default_config\<lparr>cfg_PreAnnounce_Seconds := x\<rparr>))
          then Schedule 1 (word_of_nat (nextShutdown default_config now - now))
                 (st\<lparr>isEnableModule := True, sched_tasks := [], ShutdownTimer := None\<rparr>)
          else Schedule (nextShutdown default_config now - now - unat (leadSeconds (default_config\<lparr>cfg_PreAnnounce_Seconds := x\<rparr>)))
                 (leadSeconds (default_config\<lparr>cfg_PreAnnounce_Seconds := x\<rparr>))
                 (st\<lparr>isEnableModule := True, sched_tasks := [], ShutdownTimer := None\<rparr>))"
proof -
  have v: "valid_config (default_config\<lparr>cfg_PreAnnounce_Seconds := x\<rparr>)"
    by (simp only: config_update_lead valid_default)
  show ?thesis
    unfolding Init_valid [OF v] by (simp only: no_events config_update_lead sum.case)
qed

section \<open>The claims\<close>

text \<open>
  The instants used below, in UTC. In the week of Monday 2 November 2026: 1793590200 is
  Monday 03:30:00, 1793591995 is Monday 03:59:55, 1793592000 is Monday 04:00:00, 1793663995
  is Monday 23:59:55, 1793674800 is Tuesday 03:00:00, 1793678400 is Tuesday 04:00:00 and
  1793750400 is Wednesday 00:00:00. In the week after: 1794182400 is Monday 9 November
  00:00:00, 1794196800 is Monday 04:00:00 and 1794268800 is Tuesday 10 November 00:00:00
  (see \<open>TimeBreakdown_samples\<close>).
\<close>

text \<open>
  Claim C1: in weekday mode \<open>GetNextShutdownTime\<close> returns the candidate of the earliest
  offset in 0..6 whose weekday is in the mask and whose instant is more than 10 seconds
  ahead. The code does not: a match that the guard rejects leaves its offset added to
  \<open>timeLocal\<close>, and the struct that \<^verbatim>\<open>mktime\<close> normalised carries the new weekday, so
  after a rejected match at offset 1 the loop tests the weekdays of the offsets 3 to 7 and
  never that of offset 2. On Monday 23:59:55, with the target 00:00:00 and the mask of Tuesday
  and Wednesday (12), the only qualifying offset is 2, Wednesday 00:00:00; the code returns
  Tuesday of the week after.
\<close>

theorem weekday_loop_skips_offset:
  "qualifying_offsets 1793663995 12 0 0 0 = [2] \<and>
   NextOccurrence_spec 1793663995 12 0 0 0 = 1793750400 \<and>
   GetNextShutdownTime 1793663995 12 1 0 0 0 = 1794268800"
proof -
  have q: "qualifying_offsets 1793663995 12 0 0 0 = [2]"
    by (simp add: qualifying_offsets_def tm_wday_TimeBreakdown candidate_eq upt_rec)
  have "GetNextShutdownTime 1793663995 12 1 0 0 0 = 1794268800"
    by (simp add: GetNextShutdownTime_mask mask_loop_at)
  with q show ?thesis by (simp add: NextOccurrence_spec_def candidate_eq)
qed

text \<open>
  Claim C2, as stated: in weekday mode, when no offset in 0..6 qualifies,
  \<open>GetNextShutdownTime\<close> returns the candidate of today advanced by exactly 7 days. It does
  not always: the code adds 7 days to the \<open>timeLocal\<close> the loop has reached, which is
  tomorrow's after a rejected match at offset 1. On Monday 23:59:55, with the target 00:00:00
  and the mask of Tuesday alone (4), no offset qualifies, the candidate of offset 7 is Monday
  9 November, a weekday the mask does not hold, and the code returns Tuesday 10 November, 8
  days after today's date.
\<close>

theorem weekday_fallback_adds_eight_days:
  "qualifying_offsets 1793663995 4 0 0 0 = [] \<and>
   candidate 1793663995 0 0 0 7 = 1794182400 \<and>
   GetNextShutdownTime 1793663995 4 1 0 0 0 = 1794268800 \<and>
   GetNextShutdownTime 1793663995 4 1 0 0 0 \<noteq> candidate 1793663995 0 0 0 7"
proof -
  have q: "qualifying_offsets 1793663995 4 0 0 0 = []"
    by (simp add: qualifying_offsets_def tm_wday_TimeBreakdown candidate_eq upt_rec)
  have "GetNextShutdownTime 1793663995 4 1 0 0 0 = 1794268800"
    by (simp add: GetNextShutdownTime_mask mask_loop_at)
  with q show ?thesis by (simp add: candidate_eq)
qed

text \<open>
  Claim C2, amended: in weekday mode, for a target time of day in its natural range, when no
  offset in 0..6 qualifies \<open>GetNextShutdownTime\<close> returns the candidate of today advanced by
  exactly 7 days, unless tomorrow's weekday is in the mask and today's is not: then it
  returns the candidate of today advanced by exactly 8 days, the next occurrence of
  tomorrow's weekday.
\<close>

theorem weekday_fallback:
  fixes h m s :: "8 word"
  assumes "h \<le> 23" "m \<le> 59" "s \<le> 59" "weekdayMask \<noteq> 0"
    and "qualifying_offsets now weekdayMask h m s = []"
  shows "GetNextShutdownTime now weekdayMask restartDays h m s =
     (if bit weekdayMask ((tm_wday (TimeBreakdown now) + 1) mod 7) \<and>
         \<not> bit weekdayMask (tm_wday (TimeBreakdown now))
      then candidate now h m s 8 else candidate now h m s 7)"
proof -
  note u = unat_time_fields [OF assms(1-3)]
  have c: "candidate now h m s j = (now div 86400 + j) * 86400 + day_seconds (unat h) (unat m) (unat s)" for j
    by (simp add: candidate_eq day_seconds_def)
  have w: "(tm_wday (TimeBreakdown now) + j) mod 7 = (now div 86400 + 4 + j) mod 7" for j
    by (simp add: tm_wday_TimeBreakdown mod_add_left_eq)
  have w0: "tm_wday (TimeBreakdown now) = (now div 86400 + 4 + 0) mod 7"
    by (simp add: tm_wday_TimeBreakdown)
  from assms(5) have "\<forall>j\<in>set [0..<7]. \<not> (bit weekdayMask ((tm_wday (TimeBreakdown now) + j) mod 7) \<and>
      int (candidate now h m s j) - 10 > int now)"
    unfolding qualifying_offsets_def filter_empty_conv .
  then have q: "\<forall>j<7. bit weekdayMask ((now div 86400 + 4 + j) mod 7) \<longrightarrow>
      \<not> now + 10 < (now div 86400 + j) * 86400 + day_seconds (unat h) (unat m) (unat s)"
    unfolding w c by auto
  have "GetNextShutdownTime now weekdayMask restartDays h m s =
     (if bit weekdayMask ((now div 86400 + 4 + 1) mod 7) \<and> \<not> bit weekdayMask ((now div 86400 + 4 + 0) mod 7)
      then (now div 86400 + 8) * 86400 + day_seconds (unat h) (unat m) (unat s)
      else (now div 86400 + 7) * 86400 + day_seconds (unat h) (unat m) (unat s))"
    unfolding GetNextShutdownTime_mask [OF assms(4)] by (rule mask_loop_fallback [OF u q])
  then show ?thesis by (simp only: w c) (simp only: w0 [symmetric])
qed

theorem weekday_fallback_witness:
  "(0 :: 8 word) \<le> 23 \<and> (0 :: 8 word) \<le> 59 \<and> (4 :: 8 word) \<noteq> 0 \<and>
   qualifying_offsets 1793663995 4 0 0 0 = [] \<and>
   tm_wday (TimeBreakdown 1793663995) = 1 \<and> bit (4 :: 8 word) 2 \<and> \<not> bit (4 :: 8 word) 1 \<and>
   candidate 1793663995 0 0 0 8 = 1794268800 \<and>
   GetNextShutdownTime 1793663995 4 1 0 0 0 = 1794268800 \<and>
   (4 :: 8 word) \<le> 23 \<and> (2 :: 8 word) \<noteq> 0 \<and>
   qualifying_offsets 1793591995 2 4 0 0 = [] \<and>
   tm_wday (TimeBreakdown 1793591995) = 1 \<and> \<not> bit (2 :: 8 word) 2 \<and>
   candidate 1793591995 4 0 0 7 = 1794196800 \<and>
   GetNextShutdownTime 1793591995 2 1 4 0 0 = 1794196800"
proof -
  have q: "qualifying_offsets 1793663995 4 0 0 0 = []"
    by (simp add: qualifying_offsets_def tm_wday_TimeBreakdown candidate_eq upt_rec)
  have q2: "qualifying_offsets 1793591995 2 4 0 0 = []"
    by (simp add: qualifying_offsets_def tm_wday_TimeBreakdown candidate_eq upt_rec)
  from weekday_fallback [of 0 0 0 4 1793663995 1] weekday_fallback [of 4 0 0 2 1793591995 1] q q2
  show ?thesis
    by (simp add: tm_wday_TimeBreakdown candidate_eq)
qed

text \<open>
  Claim C3: in interval mode (the mask is 0) \<open>GetNextShutdownTime\<close> builds the candidate of
  today at the target time and advances it by \<open>restartDays\<close> full days if and only if
  \<open>restartDays > 1\<close> or the candidate is not more than 10 seconds ahead; for an interval of
  one day the result is today's target when \<open>now\<close> is more than 10 seconds before it, and
  tomorrow's otherwise. The product \<open>DAY * restartDays\<close> is computed in 32 bits, so the
  statement is for the intervals whose seconds fit: up to 49710 days, which covers the 1 to
  365 that \<open>Init\<close> lets through.
\<close>

theorem interval_mode:
  assumes "unat restartDays \<le> 49710"
  shows "GetNextShutdownTime now 0 restartDays h m s =
           (if restartDays > 1 \<or> int (candidate now h m s 0) - 10 \<le> int now
            then candidate now h m s (unat restartDays) else candidate now h m s 0) \<and>
         candidate now h m s (unat restartDays) = candidate now h m s 0 + unat restartDays * DAY \<and>
         GetNextShutdownTime now 0 1 h m s =
           (if int now < int (candidate now h m s 0) - 10 then candidate now h m s 0
            else candidate now h m s 1)"
proof -
  have g: "(int (candidate now h m s 0) - 10 \<le> int now) = (candidate now h m s 0 \<le> now + 10)"
    by linarith
  have g': "(int now < int (candidate now h m s 0) - 10) = (\<not> candidate now h m s 0 \<le> now + 10)"
    by linarith
  have adv: "candidate now h m s (unat restartDays) = candidate now h m s 0 + unat restartDays * DAY"
    by (simp add: candidate_eq DAY_def HOUR_def MINUTE_def distrib_right)
  have one: "candidate now h m s 1 = candidate now h m s 0 + 86400"
    by (simp add: candidate_eq)
  have "GetNextShutdownTime now 0 restartDays h m s =
           (if restartDays > 1 \<or> int (candidate now h m s 0) - 10 \<le> int now
            then candidate now h m s (unat restartDays) else candidate now h m s 0)"
    unfolding g adv
    by (simp add: GetNextShutdownTime_interval interval_advance [OF assms] DAY_def HOUR_def MINUTE_def)
  moreover have "GetNextShutdownTime now 0 1 h m s =
           (if int now < int (candidate now h m s 0) - 10 then candidate now h m s 0
            else candidate now h m s 1)"
    unfolding g' one by (simp add: GetNextShutdownTime_interval)
  ultimately show ?thesis using adv by blast
qed

theorem interval_mode_witness:
  "unat (1 :: 32 word) \<le> 49710 \<and> candidate 1793591995 4 0 0 0 = 1793592000 \<and>
   GetNextShutdownTime 1793591995 0 1 4 0 0 = 1793678400"
  using interval_mode [of 1 1793591995 4 0 0]
  by (simp add: candidate_eq DAY_def HOUR_def MINUTE_def)

text \<open>
  Claim C4: after an \<open>Init\<close> that leaves the module enabled, with a configured lead of at most
  a day: if the lead exceeds the seconds left to the shutdown, the announce task is due at
  \<open>nowTime + 1\<close> and carries the seconds left, which its action puts both in the message and
  in the grace period of the shutdown request; otherwise the task is due at the shutdown
  instant minus the lead and carries the configured lead.
\<close>

theorem announce_clamping:
  assumes "Init cfg nowTime st = Inr st'" "isEnableModule st'"
    and "cfg_PreAnnounce_Seconds cfg \<le> word_of_nat DAY"
  shows "\<exists>task. sched_tasks st' = [task] \<and>
     (if nextShutdown cfg nowTime - nowTime < unat (cfg_PreAnnounce_Seconds cfg)
      then fires_at nowTime st (nowTime + 1) task \<and>
           unat (snd task) = nextShutdown cfg nowTime - nowTime
      else fires_at nowTime st (nextShutdown cfg nowTime - unat (cfg_PreAnnounce_Seconds cfg)) task \<and>
           snd task = cfg_PreAnnounce_Seconds cfg) \<and>
     (\<forall>s. ServerMessages (PreAnnounceTask (snd task) s) = ServerMessages s @ [snd task] \<and>
          ShutdownTimer (PreAnnounceTask (snd task) s) = Some (snd task))"
proof -
  from Init_enabled_task [OF assms(1,2)] obtain task where
    t: "sched_tasks st' = [task]"
      "if nextShutdown cfg nowTime - nowTime < unat (leadSeconds cfg)
       then fires_at nowTime st (nowTime + 1) task \<and>
            unat (snd task) = nextShutdown cfg nowTime - nowTime
       else fires_at nowTime st (nextShutdown cfg nowTime - unat (leadSeconds cfg)) task \<and>
            snd task = leadSeconds cfg"
    by blast
  from t(2) have "if nextShutdown cfg nowTime - nowTime < unat (cfg_PreAnnounce_Seconds cfg)
      then fires_at nowTime st (nowTime + 1) task \<and>
           unat (snd task) = nextShutdown cfg nowTime - nowTime
      else fires_at nowTime st (nextShutdown cfg nowTime - unat (cfg_PreAnnounce_Seconds cfg)) task \<and>
           snd task = cfg_PreAnnounce_Seconds cfg"
    unfolding leadSeconds_within_day [OF assms(3)] by (simp split: if_splits)
  with t(1) show ?thesis by (simp add: PreAnnounceTask_effect)
qed

theorem announce_clamping_witness:
  "Init (default_config\<lparr>cfg_PreAnnounce_Seconds := 7200\<rparr>) 1793590200 initial_state =
     Inr (initial_state\<lparr>isEnableModule := True, sched_tasks := [(1000, 1800)]\<rparr>) \<and>
   (7200 :: 32 word) \<le> word_of_nat DAY \<and>
   nextShutdown (default_config\<lparr>cfg_PreAnnounce_Seconds := 7200\<rparr>) 1793590200 - 1793590200 = 1800 \<and>
   fires_at 1793590200 initial_state (1793590200 + 1) (1000, 1800)"
proof -
  let ?cfg = "default_config\<lparr>cfg_PreAnnounce_Seconds := 7200\<rparr>"
  let ?st' = "initial_state\<lparr>isEnableModule := True, sched_tasks := [(1000, 1800)]\<rparr>"
  have i: "Init ?cfg 1793590200 initial_state = Inr ?st'"
    by (simp only: Init_default_lead next_default2)
       (simp add: leadSeconds_def default_config_def DAY_def HOUR_def MINUTE_def Schedule_def
          initial_state_def)
  have e: "isEnableModule ?st'" by simp
  have l: "cfg_PreAnnounce_Seconds ?cfg \<le> word_of_nat DAY"
    by (simp add: DAY_def HOUR_def MINUTE_def)
  have n: "nextShutdown ?cfg 1793590200 - 1793590200 = 1800"
    by (simp add: config_update_lead next_default2)
  from announce_clamping [OF i e l] i l n show ?thesis
    by (simp add: fires_at_def initial_state_def)
qed

text \<open>
  Claim C5, as stated: for a mask of exactly one weekday \<open>GetNextShutdownTime\<close> returns an
  instant at most 7 days after \<open>now\<close>. It fails by the 10-second guard: on Monday 03:59:55,
  with the target 04:00:00 and the mask of Monday, today's target is 5 seconds ahead and is
  rejected, and the result is Monday of the week after, 04:00:00, which is 7 days and 5
  seconds after \<open>now\<close>.
\<close>

theorem single_weekday_not_within_seven_days:
  "GetNextShutdownTime 1793591995 2 1 4 0 0 = 1794196800 \<and>
   \<not> GetNextShutdownTime 1793591995 2 1 4 0 0 \<le> 1793591995 + 7 * DAY"
  by (simp add: GetNextShutdownTime_mask mask_loop_at DAY_def HOUR_def MINUTE_def)

text \<open>
  Claim C5, amended: for a mask of exactly one weekday and a target time of day in its
  natural range, \<open>GetNextShutdownTime\<close> returns an instant at most 7 days and 10 seconds
  after \<open>now\<close>, and that instant is the target hour, minute and second of its calendar day.
\<close>

theorem single_weekday:
  fixes h m s :: "8 word"
  assumes "w < 7" "h \<le> 23" "m \<le> 59" "s \<le> 59"
  shows "GetNextShutdownTime now (push_bit w 1) restartDays h m s \<le> now + 7 * DAY + 10 \<and>
     tm_hour (TimeBreakdown (GetNextShutdownTime now (push_bit w 1) restartDays h m s)) = unat h \<and>
     tm_min (TimeBreakdown (GetNextShutdownTime now (push_bit w 1) restartDays h m s)) = unat m \<and>
     tm_sec (TimeBreakdown (GetNextShutdownTime now (push_bit w 1) restartDays h m s)) = unat s"
proof -
  note u = unat_time_fields [OF assms(2-4)]
  have nz: "(push_bit w 1 :: 8 word) \<noteq> 0"
  proof
    assume z: "(push_bit w 1 :: 8 word) = 0"
    have "bit (push_bit w 1 :: 8 word) w" by (simp only: bit_single [OF assms(1)])
    then have "bit (0 :: 8 word) w" by (simp only: z)
    then show False by simp
  qed
  from GetNextShutdownTime_single_bit [OF assms(2-4) assms(1), of now restartDays]
  have b: "GetNextShutdownTime now (push_bit w 1) restartDays h m s \<le> now + 7 * DAY + 10"
    by (simp add: DAY_def HOUR_def MINUTE_def)
  from GetNextShutdownTime_mask_form [OF assms(2-4) nz, of now restartDays]
  obtain d where d: "GetNextShutdownTime now (push_bit w 1) restartDays h m s =
      d * 86400 + day_seconds (unat h) (unat m) (unat s)" by blast
  have "tm_hour (TimeBreakdown (GetNextShutdownTime now (push_bit w 1) restartDays h m s)) = unat h"
    "tm_min (TimeBreakdown (GetNextShutdownTime now (push_bit w 1) restartDays h m s)) = unat m"
    "tm_sec (TimeBreakdown (GetNextShutdownTime now (push_bit w 1) restartDays h m s)) = unat s"
    unfolding d by (rule TimeBreakdown_fields [OF u])+
  with b show ?thesis by blast
qed

theorem single_weekday_witness:
  "(1::nat) < 7 \<and> (4 :: 8 word) \<le> 23 \<and> (0 :: 8 word) \<le> 59 \<and>
   GetNextShutdownTime 1793591995 (push_bit 1 1) 1 4 0 0 = 1794196800 \<and>
   GetNextShutdownTime 1793591995 (push_bit 1 1) 1 4 0 0 \<le> 1793591995 + 7 * DAY + 10 \<and>
   tm_hour (TimeBreakdown (GetNextShutdownTime 1793591995 (push_bit 1 1) 1 4 0 0)) = 4"
  using single_weekday [of 1 4 0 0 1793591995 1]
  by (simp add: GetNextShutdownTime_mask mask_loop_at)

text \<open>
  Claim C6, as stated: every call of \<open>Init\<close> cancels all pending tasks and clears a requested
  shutdown at its start, before anything else, also when the configuration is invalid. It
  does not: \<^verbatim>\<open>CancelAll\<close> and \<^verbatim>\<open>ShutdownCancel\<close> come after the checks of the
  configuration, and every failed check returns before them. A reload with the time
  \<open>24:00:00\<close> leaves the pending task and the requested shutdown where they were.
\<close>

theorem reload_keeps_stale_task:
  "Init (default_config\<lparr>cfg_Time := ''24:00:00''\<rparr>) 1793591995 reloading_state =
     Inr (reloading_state\<lparr>isEnableModule := False\<rparr>) \<and>
   sched_tasks (reloading_state\<lparr>isEnableModule := False\<rparr>) = [(82805000, 3600)] \<and>
   ShutdownTimer (reloading_state\<lparr>isEnableModule := False\<rparr>) = Some 600"
proof -
  have "\<not> valid_config (default_config\<lparr>cfg_Time := ''24:00:00''\<rparr>)"
    by (simp add: valid_config_def default_config_def Tokenize_def StringTo_uint8_def StringTo_nat_def
      is_digit_def cfg_restartHour_def cfg_restartMinute_def cfg_restartSecond_def)
  then have "Init (default_config\<lparr>cfg_Time := ''24:00:00''\<rparr>) 1793591995 reloading_state =
     Inr (reloading_state\<lparr>isEnableModule := False\<rparr>)"
    by (rule Init_invalid)
  then show ?thesis by (simp add: reloading_state_def)
qed

text \<open>
  Claim C6, amended: an \<open>Init\<close> whose configuration passes the checks, when it returns,
  leaves the module enabled, no shutdown requested and the new announce task, due no later
  than the shutdown instant, as the only pending task, whatever was pending before; and it
  does return when the list of events is empty. An \<open>Init\<close> that finds the module disabled or
  a check failing changes nothing but the module's flag, which it clears, and the calls of
  \<open>OnUpdate\<close> that follow leave the state alone, so the tasks still pending do not fire.
\<close>

theorem reload:
  "(valid_config cfg \<longrightarrow>
      (\<forall>st'. Init cfg nowTime st = Inr st' \<longrightarrow>
         isEnableModule st' \<and> ShutdownTimer st' = None \<and>
         (\<exists>task t. sched_tasks st' = [task] \<and> fires_at nowTime st t task \<and>
            t \<le> nextShutdown cfg nowTime)) \<and>
      (cfg_StartEvents cfg = [] \<longrightarrow> (\<exists>st'. Init cfg nowTime st = Inr st'))) \<and>
   (\<not> valid_config cfg \<longrightarrow>
      Init cfg nowTime st = Inr (st\<lparr>isEnableModule := False\<rparr>) \<and>
      (\<forall>diffs. foldl (\<lambda>s d. OnUpdate d s) (st\<lparr>isEnableModule := False\<rparr>) diffs =
         st\<lparr>isEnableModule := False\<rparr>))"
proof (cases "valid_config cfg")
  case True
  note nb = nextShutdown_bounds [OF True, of nowTime]
  have "isEnableModule st' \<and> ShutdownTimer st' = None \<and>
         (\<exists>task t. sched_tasks st' = [task] \<and> fires_at nowTime st t task \<and>
            t \<le> nextShutdown cfg nowTime)"
    if i: "Init cfg nowTime st = Inr st'" for st'
  proof -
    from Init_valid_enabled [OF True i] have e: "isEnableModule st'" .
    from Init_enabled_task [OF i e] obtain task where
      t: "sched_tasks st' = [task]" "ShutdownTimer st' = None"
        "if nextShutdown cfg nowTime - nowTime < unat (leadSeconds cfg)
         then fires_at nowTime st (nowTime + 1) task \<and>
              unat (snd task) = nextShutdown cfg nowTime - nowTime
         else fires_at nowTime st (nextShutdown cfg nowTime - unat (leadSeconds cfg)) task \<and>
              snd task = leadSeconds cfg"
      by blast
    have "\<exists>t. fires_at nowTime st t task \<and> t \<le> nextShutdown cfg nowTime"
    proof (cases "nextShutdown cfg nowTime - nowTime < unat (leadSeconds cfg)")
      case True
      with t(3) have "fires_at nowTime st (nowTime + 1) task" by simp
      moreover from nb(1) have "nowTime + 1 \<le> nextShutdown cfg nowTime" by simp
      ultimately show ?thesis by blast
    next
      case False
      with t(3) have "fires_at nowTime st (nextShutdown cfg nowTime - unat (leadSeconds cfg)) task"
        by simp
      moreover have "nextShutdown cfg nowTime - unat (leadSeconds cfg) \<le> nextShutdown cfg nowTime"
        by simp
      ultimately show ?thesis by blast
    qed
    with e t(1,2) show ?thesis by blast
  qed
  with True Init_returns [OF True, of nowTime st] show ?thesis by blast
next
  case False
  from Init_invalid [OF False, of nowTime st] updates_disabled [of "st\<lparr>isEnableModule := False\<rparr>"]
  show ?thesis using False by simp
qed

theorem reload_witness:
  "valid_config default_config \<and> cfg_StartEvents default_config = [] \<and>
   sched_tasks reloading_state = [(82805000, 3600)] \<and> ShutdownTimer reloading_state = Some 600 \<and>
   Init default_config 1793590200 reloading_state =
     Inr (reloading_state\<lparr>sched_tasks := [(1000, 1800)], ShutdownTimer := None\<rparr>) \<and>
   isEnableModule (reloading_state\<lparr>sched_tasks := [(1000, 1800)], ShutdownTimer := None\<rparr>) \<and>
   fires_at 1793590200 reloading_state 1793590201 (1000, 1800) \<and>
   \<not> valid_config (default_config\<lparr>cfg_Enabled := False\<rparr>) \<and>
   Init (default_config\<lparr>cfg_Enabled := False\<rparr>) 1793591995 reloading_state =
     Inr (reloading_state\<lparr>isEnableModule := False\<rparr>) \<and>
   foldl (\<lambda>s d. OnUpdate d s) (reloading_state\<lparr>isEnableModule := False\<rparr>) [4000000000, 4000000000] =
     reloading_state\<lparr>isEnableModule := False\<rparr>"
proof -
  have d: "default_config\<lparr>cfg_PreAnnounce_Seconds := 3600\<rparr> = default_config"
    by (simp add: default_config_def)
  have i: "Init default_config 1793590200 reloading_state =
     Inr (reloading_state\<lparr>sched_tasks := [(1000, 1800)], ShutdownTimer := None\<rparr>)"
    using Init_default_lead [of 3600 1793590200 reloading_state] unfolding d
    by (simp only: next_default2)
       (simp add: leadSeconds_def default_config_def DAY_def HOUR_def MINUTE_def Schedule_def
          reloading_state_def)
  have n: "\<not> valid_config (default_config\<lparr>cfg_Enabled := False\<rparr>)"
    by (simp add: valid_config_def)
  note r1 = reload [of default_config 1793590200 reloading_state]
  note r2 = reload [of "default_config\<lparr>cfg_Enabled := False\<rparr>" 1793591995 reloading_state]
  from r1 valid_default i
  have e: "isEnableModule (reloading_state\<lparr>sched_tasks := [(1000, 1800)], ShutdownTimer := None\<rparr>)"
    by blast
  from r2 n
  have a: "Init (default_config\<lparr>cfg_Enabled := False\<rparr>) 1793591995 reloading_state =
      Inr (reloading_state\<lparr>isEnableModule := False\<rparr>)"
    and b: "foldl (\<lambda>s d. OnUpdate d s) (reloading_state\<lparr>isEnableModule := False\<rparr>)
        [4000000000, 4000000000] = reloading_state\<lparr>isEnableModule := False\<rparr>"
    by blast+
  have c: "cfg_StartEvents default_config = []"
    "sched_tasks reloading_state = [(82805000, 3600)]" "ShutdownTimer reloading_state = Some 600"
    "fires_at 1793590200 reloading_state 1793590201 (1000, 1800)"
    by (simp_all add: fires_at_def reloading_state_def default_config_def)
  from valid_default i e n a b c show ?thesis by (simp only: simp_thms)
qed




text \<open>
  Claim C8: no configuration value makes \<open>Init\<close> crash or run into undefined behaviour. The
  code does: \<open>StartPersistentGameEvents\<close> reads the optional that \<^verbatim>\<open>StringTo<uint32>\<close>
  returns for a token with no check, so a token that is not a number, as in the event list
  \<open>abc\<close>, is a read of an empty optional. (The tokens of the time option are checked by
  \<open>CheckTime\<close> before they are read.)
\<close>

theorem unchecked_event_token:
  "Init (default_config\<lparr>cfg_StartEvents := ''abc''\<rparr>) 1793591995 initial_state = Inl BadOptionalAccess"
proof -
  have v: "valid_config (default_config\<lparr>cfg_StartEvents := ''abc''\<rparr>)"
    by (simp only: config_update_events valid_default)
  have "StartPersistentGameEvents (default_config\<lparr>cfg_StartEvents := ''abc''\<rparr>) st = Inl BadOptionalAccess" for st
    by (simp add: StartPersistentGameEvents_def Tokenize_def StringTo_uint32_def StringTo_nat_def is_digit_def)
  then show ?thesis
    unfolding Init_valid [OF v] by simp
qed

text \<open>
  Claim C9: after an \<open>Init\<close> that leaves the module enabled, and after any updates that
  follow, the scheduler holds at most two pending tasks; in fact it holds the announce task
  alone, due no later than the shutdown instant, or nothing: the shutdown is no task of the
  scheduler, it is the countdown that the announce task's action asks the world server for.
\<close>

theorem pending_tasks:
  assumes "Init cfg nowTime st = Inr st'" "isEnableModule st'"
  shows "\<exists>task t. t \<le> nextShutdown cfg nowTime \<and> fires_at nowTime st t task \<and>
     (\<forall>diffs. length (sched_tasks (foldl (\<lambda>s d. OnUpdate d s) st' diffs)) \<le> 2 \<and>
        ((sched_tasks (foldl (\<lambda>s d. OnUpdate d s) st' diffs) = [task] \<and>
          ShutdownTimer (foldl (\<lambda>s d. OnUpdate d s) st' diffs) = None) \<or>
         (sched_tasks (foldl (\<lambda>s d. OnUpdate d s) st' diffs) = [] \<and>
          ShutdownTimer (foldl (\<lambda>s d. OnUpdate d s) st' diffs) = Some (snd task))))"
proof -
  from assms have v: "valid_config cfg" by (rule Init_enabled_valid)
  note nb = nextShutdown_bounds [OF v, of nowTime]
  from Init_enabled_task [OF assms] obtain task where
    t: "sched_tasks st' = [task]" "ShutdownTimer st' = None"
      "if nextShutdown cfg nowTime - nowTime < unat (leadSeconds cfg)
       then fires_at nowTime st (nowTime + 1) task \<and>
            unat (snd task) = nextShutdown cfg nowTime - nowTime
       else fires_at nowTime st (nextShutdown cfg nowTime - unat (leadSeconds cfg)) task \<and>
            snd task = leadSeconds cfg"
    by blast
  have "\<exists>t0. t0 \<le> nextShutdown cfg nowTime \<and> fires_at nowTime st t0 task"
  proof (cases "nextShutdown cfg nowTime - nowTime < unat (leadSeconds cfg)")
    case True
    with t(3) have "fires_at nowTime st (nowTime + 1) task" by simp
    moreover from nb(1) have "nowTime + 1 \<le> nextShutdown cfg nowTime" by simp
    ultimately show ?thesis by blast
  next
    case False
    with t(3) have "fires_at nowTime st (nextShutdown cfg nowTime - unat (leadSeconds cfg)) task"
      by simp
    moreover have "nextShutdown cfg nowTime - unat (leadSeconds cfg) \<le> nextShutdown cfg nowTime"
      by simp
    ultimately show ?thesis by blast
  qed
  then obtain t0 where t0: "t0 \<le> nextShutdown cfg nowTime" "fires_at nowTime st t0 task"
    by blast
  have inv: "(sched_tasks (foldl (\<lambda>s d. OnUpdate d s) st' diffs) = [task] \<and>
          ShutdownTimer (foldl (\<lambda>s d. OnUpdate d s) st' diffs) = None) \<or>
         (sched_tasks (foldl (\<lambda>s d. OnUpdate d s) st' diffs) = [] \<and>
          ShutdownTimer (foldl (\<lambda>s d. OnUpdate d s) st' diffs) = Some (snd task))" for diffs
    by (rule updates_pending_or_fired) (simp add: t)
  then have "length (sched_tasks (foldl (\<lambda>s d. OnUpdate d s) st' diffs)) \<le> 2" for diffs
    by (metis length_Cons list.size(3) One_nat_def Suc_1 le_SucI le_refl zero_le)
  with inv t0 show ?thesis by blast
qed

theorem pending_tasks_witness:
  "Init default_config 1793591995 initial_state =
     Inr (initial_state\<lparr>isEnableModule := True, sched_tasks := [(82805000, 3600)]\<rparr>) \<and>
   length (sched_tasks (foldl (\<lambda>s d. OnUpdate d s)
     (initial_state\<lparr>isEnableModule := True, sched_tasks := [(82805000, 3600)]\<rparr>) [60000, 4000000000])) \<le> 2"
proof -
  let ?st' = "initial_state\<lparr>isEnableModule := True, sched_tasks := [(82805000, 3600)]\<rparr>"
  have d: "default_config\<lparr>cfg_PreAnnounce_Seconds := 3600\<rparr> = default_config"
    by (simp add: default_config_def)
  have i: "Init default_config 1793591995 initial_state = Inr ?st'"
    using Init_default_lead [of 3600 1793591995 initial_state] unfolding d
    by (simp only: next_default)
       (simp add: leadSeconds_def default_config_def DAY_def HOUR_def MINUTE_def Schedule_def
          initial_state_def)
  have e: "isEnableModule ?st'" by simp
  from pending_tasks [OF i e] i show ?thesis by blast
qed

text \<open>
  Claim C10: after an \<open>Init\<close> that leaves the module enabled, the announce task is due at an
  instant \<open>t\<close>. The updates that follow leave no shutdown requested as long as the
  scheduler's clock has advanced by less than \<open>t - nowTime\<close> seconds; from the update that
  reaches it on, the task's action has passed its grace seconds to \<^verbatim>\<open>ShutdownServ\<close>. And
  \<open>t\<close> plus that grace is the shutdown instant when the lead fits in the seconds left, and
  one second later when the lead was clamped.
\<close>

theorem shutdown_landing:
  assumes "Init cfg nowTime st = Inr st'" "isEnableModule st'"
  shows "\<exists>task t. sched_tasks st' = [task] \<and> fires_at nowTime st t task \<and>
     (\<forall>d ds. ShutdownTimer (foldl (\<lambda>s d. OnUpdate d s) st' (d # ds)) =
        (if unat d + sum_list (map unat ds) < 1000 * (t - nowTime) then None
         else Some (snd task))) \<and>
     t + unat (snd task) =
       (if unat (leadSeconds cfg) \<le> nextShutdown cfg nowTime - nowTime
        then nextShutdown cfg nowTime else nextShutdown cfg nowTime + 1)"
proof -
  from assms have v: "valid_config cfg" by (rule Init_enabled_valid)
  note nb = nextShutdown_bounds [OF v, of nowTime]
  note c = Init_enabled_tasks(3) [OF assms]
  from Init_enabled_task [OF assms] obtain task where
    t: "sched_tasks st' = [task]" "ShutdownTimer st' = None"
      "if nextShutdown cfg nowTime - nowTime < unat (leadSeconds cfg)
       then fires_at nowTime st (nowTime + 1) task \<and>
            unat (snd task) = nextShutdown cfg nowTime - nowTime
       else fires_at nowTime st (nextShutdown cfg nowTime - unat (leadSeconds cfg)) task \<and>
            snd task = leadSeconds cfg"
    by blast
  from t(1) have t1: "sched_tasks st' = [(fst task, snd task)]" by simp
  have fire: "ShutdownTimer (foldl (\<lambda>s d. OnUpdate d s) st' (d # ds)) =
        (if unat d + sum_list (map unat ds) < 1000 * (t0 - nowTime) then None else Some (snd task))"
    if "fires_at nowTime st t0 task" for t0 d ds
  proof -
    from that have e: "fst task = sched_now st' + 1000 * (t0 - nowTime)"
      by (simp add: fires_at_def c)
    show ?thesis
      unfolding updates_fire [OF assms(2) t1 t(2)] e by simp
  qed
  show ?thesis
  proof (cases "nextShutdown cfg nowTime - nowTime < unat (leadSeconds cfg)")
    case True
    with t(3) have f: "fires_at nowTime st (nowTime + 1) task"
      and g: "unat (snd task) = nextShutdown cfg nowTime - nowTime" by simp_all
    from nb(1) g have "nowTime + 1 + unat (snd task) = nextShutdown cfg nowTime + 1"
      by simp
    with True have l: "nowTime + 1 + unat (snd task) =
       (if unat (leadSeconds cfg) \<le> nextShutdown cfg nowTime - nowTime
        then nextShutdown cfg nowTime else nextShutdown cfg nowTime + 1)" by simp
    from t(1) f fire [OF f] l show ?thesis by blast
  next
    case False
    with t(3) have f: "fires_at nowTime st (nextShutdown cfg nowTime - unat (leadSeconds cfg)) task"
      and g: "snd task = leadSeconds cfg" by simp_all
    from False g have l: "nextShutdown cfg nowTime - unat (leadSeconds cfg) + unat (snd task) =
       (if unat (leadSeconds cfg) \<le> nextShutdown cfg nowTime - nowTime
        then nextShutdown cfg nowTime else nextShutdown cfg nowTime + 1)" by simp
    from t(1) f fire [OF f] l show ?thesis by blast
  qed
qed

theorem shutdown_landing_witness:
  "Init default_config 1793591995 initial_state =
     Inr (initial_state\<lparr>isEnableModule := True, sched_tasks := [(82805000, 3600)]\<rparr>) \<and>
   nextShutdown default_config 1793591995 = 1793678400 \<and>
   fires_at 1793591995 initial_state 1793674800 (82805000, 3600) \<and>
   ShutdownTimer (foldl (\<lambda>s d. OnUpdate d s)
     (initial_state\<lparr>isEnableModule := True, sched_tasks := [(82805000, 3600)]\<rparr>) [60000, 82744999]) = None \<and>
   ShutdownTimer (foldl (\<lambda>s d. OnUpdate d s)
     (initial_state\<lparr>isEnableModule := True, sched_tasks := [(82805000, 3600)]\<rparr>) [60000, 82745000]) = Some 3600 \<and>
   1793674800 + unat (3600 :: 32 word) = (1793678400 :: nat)"
proof -
  let ?st' = "initial_state\<lparr>isEnableModule := True, sched_tasks := [(82805000, 3600)]\<rparr>"
  have d: "default_config\<lparr>cfg_PreAnnounce_Seconds := 3600\<rparr> = default_config"
    by (simp add: default_config_def)
  have i: "Init default_config 1793591995 initial_state = Inr ?st'"
    using Init_default_lead [of 3600 1793591995 initial_state] unfolding d
    by (simp only: next_default)
       (simp add: leadSeconds_def default_config_def DAY_def HOUR_def MINUTE_def Schedule_def
          initial_state_def)
  have e: "isEnableModule ?st'" by simp
  from shutdown_landing [OF i e] obtain task t where
    r: "sched_tasks ?st' = [task]" "fires_at 1793591995 initial_state t task"
      "\<forall>d ds. ShutdownTimer (foldl (\<lambda>s d. OnUpdate d s) ?st' (d # ds)) =
        (if unat d + sum_list (map unat ds) < 1000 * (t - 1793591995) then None
         else Some (snd task))"
    by blast
  from r(1) have task: "task = (82805000, 3600)" by simp
  from r(2) have "1793591995 \<le> t" "t - 1793591995 = 82805"
    by (simp_all add: task fires_at_def initial_state_def)
  then have t: "t = 1793674800" by linarith
  from r(3) [rule_format, of 60000 "[82744999]"] r(3) [rule_format, of 60000 "[82745000]"]
  have "ShutdownTimer (foldl (\<lambda>s d. OnUpdate d s) ?st' [60000, 82744999]) = None"
    "ShutdownTimer (foldl (\<lambda>s d. OnUpdate d s) ?st' [60000, 82745000]) = Some 3600"
    unfolding t task by simp_all
  with i next_default show ?thesis
    by (simp add: fires_at_def initial_state_def)
qed
section \<open>Beyond the claims\<close>

text \<open>
  When the target is at least 10 seconds after midnight the guard can
  only reject today's candidate, and the code returns what the specification words, for
  every instant and every mask.
\<close>

theorem weekday_mode_agrees:
  fixes h m s :: "8 word"
  assumes "h \<le> 23" "m \<le> 59" "s \<le> 59" "weekdayMask \<noteq> 0"
    and "10 \<le> day_seconds (unat h) (unat m) (unat s)"
  shows "GetNextShutdownTime now weekdayMask restartDays h m s = NextOccurrence_spec now weekdayMask h m s"
proof -
  note u = unat_time_fields [OF assms(1-3)]
  have g: "(int ((now div 86400 + j) * 86400 + day_seconds (unat h) (unat m) (unat s)) - 10 > int now) =
        (now + 10 < (now div 86400 + j) * 86400 + day_seconds (unat h) (unat m) (unat s))" for j
    by linarith
  have c: "candidate now h m s j = (now div 86400 + j) * 86400 + day_seconds (unat h) (unat m) (unat s)" for j
    by (simp add: candidate_eq day_seconds_def)
  have w: "(tm_wday (TimeBreakdown now) + j) mod 7 = (now div 86400 + 4 + j) mod 7" for j
    by (simp add: tm_wday_TimeBreakdown mod_add_left_eq)
  show ?thesis
    unfolding GetNextShutdownTime_mask [OF assms(4)] NextOccurrence_spec_def qualifying_offsets_def
    by (simp only: g w c mask_loop_first_match [OF u assms(5), of 0] le0)
qed

theorem weekday_mode_agrees_witness:
  "(4 :: 8 word) \<le> 23 \<and> (0 :: 8 word) \<le> 59 \<and> (2 :: 8 word) \<noteq> 0 \<and>
   10 \<le> day_seconds (unat (4 :: 8 word)) (unat (0 :: 8 word)) (unat (0 :: 8 word)) \<and>
   NextOccurrence_spec 1793591995 2 4 0 0 = 1794196800 \<and>
   GetNextShutdownTime 1793591995 2 1 4 0 0 = 1794196800"
  using weekday_mode_agrees [of 4 0 0 2 1793591995 1]
  by (simp add: day_seconds_def GetNextShutdownTime_mask mask_loop_at)


text \<open>
  For every policy that \<open>Init\<close> lets through, in either mode, the next shutdown is later
  than \<open>now\<close> and at most 366 days later.
\<close>

theorem next_shutdown_ahead:
  fixes h m s :: "8 word"
  assumes "h \<le> 23" "m \<le> 59" "s \<le> 59" "1 \<le> restartDays" "restartDays \<le> 365"
  shows "now < GetNextShutdownTime now weekdayMask restartDays h m s \<and>
         GetNextShutdownTime now weekdayMask restartDays h m s \<le> now + 366 * DAY"
  using GetNextShutdownTime_bounds [OF assms, of now weekdayMask]
  by (simp add: DAY_def HOUR_def MINUTE_def)

theorem next_shutdown_ahead_witness:
  "(4 :: 8 word) \<le> 23 \<and> (0 :: 8 word) \<le> 59 \<and> (1 :: 32 word) \<le> 1 \<and> (1 :: 32 word) \<le> 365 \<and>
   (1793591995 :: nat) < GetNextShutdownTime 1793591995 0 1 4 0 0 \<and>
   GetNextShutdownTime 1793591995 0 1 4 0 0 \<le> 1793591995 + 366 * DAY"
  using next_shutdown_ahead [of 4 0 0 1 1793591995 0] by simp

text \<open>
  In weekday mode, for every mask and target that \<open>Init\<close> lets through, the instant returned
  falls on a weekday of the mask, also where the loop has skipped an offset.
\<close>

theorem weekday_mode_lands_in_mask:
  fixes h m s :: "8 word"
  assumes "h \<le> 23" "m \<le> 59" "s \<le> 59" "weekdayMask \<noteq> 0" "weekdayMask \<le> 127"
  shows "bit weekdayMask (tm_wday (TimeBreakdown (GetNextShutdownTime now weekdayMask restartDays h m s)))"
proof -
  note u = unat_time_fields [OF assms(1-3)]
  from mask_bit_below_7 [OF assms(4,5)] obtain w where w: "w < 7" "bit weekdayMask w" by blast
  from weekday_reached [OF w(1), of "now div 86400"] w(2)
  have "\<exists>j. 0 \<le> j \<and> j < 7 \<and> bit weekdayMask ((now div 86400 + 4 + j) mod 7)" by auto
  then have "(\<exists>j. 0 \<le> j \<and> j < 7 \<and> bit weekdayMask ((now div 86400 + 4 + j) mod 7)) \<or>
      bit weekdayMask ((now div 86400 + 4) mod 7)" by blast
  from mask_loop_hits_mask [OF u this, of now] obtain d where
    d: "GetNextShutdownTime now weekdayMask restartDays h m s = d * 86400 + day_seconds (unat h) (unat m) (unat s)"
      "bit weekdayMask ((d + 4) mod 7)"
    unfolding GetNextShutdownTime_mask [OF assms(4)] by blast
  have "(d * 86400 + day_seconds (unat h) (unat m) (unat s)) div 86400 = d"
    using day_seconds_less [OF u] by simp
  with d(2) show ?thesis unfolding d(1) by (simp add: tm_wday_TimeBreakdown)
qed

theorem weekday_mode_lands_in_mask_witness:
  "(0 :: 8 word) \<le> 23 \<and> (0 :: 8 word) \<le> 59 \<and> (4 :: 8 word) \<noteq> 0 \<and> (4 :: 8 word) \<le> 127 \<and>
   GetNextShutdownTime 1793663995 4 1 0 0 0 = 1794268800 \<and>
   tm_wday (TimeBreakdown 1794268800) = 2 \<and> bit (4 :: 8 word) 2"
  using weekday_mode_lands_in_mask [of 0 0 0 4 1793663995 1]
  by (simp add: GetNextShutdownTime_mask mask_loop_at tm_wday_TimeBreakdown)

end
